theory Spec2Isabelle
  imports Complex_Main "HOL-Library.AList"
begin

section \<open>Port allocator (services/portManager.js)\<close>

text \<open>
  The allocator keeps a list of assignments in a JSON file. The model is the parsed
  list itself: \<open>loadAssignments\<close> returns it and \<open>saveAssignments\<close> replaces it.
  Ports are natural numbers.
\<close>

record assignment =
  projectId :: string
  projectName :: string
  frontend :: nat
  backend :: nat
  assignedAt :: string

definition PLATFORM_PORTS :: "nat list" where
  "PLATFORM_PORTS = [3000, 3001]"

definition STARTING_PORT :: nat where
  "STARTING_PORT = 4000"

text \<open>\<open>getUsedPorts\<close>: the reserved ports and both ports of every stored assignment.\<close>

definition getUsedPorts :: "assignment list \<Rightarrow> nat list" where
  "getUsedPorts assignments =
     PLATFORM_PORTS @ concat (map (\<lambda>a. [frontend a, backend a]) assignments)"

text \<open>The \<open>while (used.has(port)) port++\<close> loop of \<open>findNextPort\<close>.\<close>

function scanPort :: "nat list \<Rightarrow> nat \<Rightarrow> nat" where
  "scanPort used port = (if port \<in> set used then scanPort used (port + 1) else port)"
  by pat_completeness auto
termination
proof (relation "measure (\<lambda>(used, port). Suc (Max (set used)) - port)")
  show "wf (measure (\<lambda>(used, port). Suc (Max (set used)) - port))"
    by simp
next
  fix used :: "nat list" and port :: nat
  assume "port \<in> set used"
  then have "port \<le> Max (set used)"
    by simp
  then show "((used, port + 1), (used, port))
      \<in> measure (\<lambda>(used, port). Suc (Max (set used)) - port)"
    by simp
qed

declare scanPort.simps [simp del]

definition findNextPort :: "assignment list \<Rightarrow> nat \<Rightarrow> nat" where
  "findNextPort assignments startFrom = scanPort (getUsedPorts assignments) startFrom"

text \<open>
  \<open>assignPorts\<close> returns the stored assignment of a project that has one; otherwise it
  scans for two ports, appends the new assignment and saves the list. The time stamp is
  an input.
\<close>

definition assignPorts ::
  "assignment list \<Rightarrow> string \<Rightarrow> string \<Rightarrow> string \<Rightarrow> assignment \<times> assignment list" where
  "assignPorts assignments pid pname now =
     (case find (\<lambda>a. projectId a = pid) assignments of
        Some existing \<Rightarrow> (existing, assignments)
      | None \<Rightarrow>
          (let frontendPort = findNextPort assignments STARTING_PORT;
               backendPort = findNextPort assignments (frontendPort + 1);
               a = \<lparr>projectId = pid, projectName = pname, frontend = frontendPort,
                     backend = backendPort, assignedAt = now\<rparr>
           in (a, assignments @ [a])))"

definition getAssignment :: "assignment list \<Rightarrow> string \<Rightarrow> assignment option" where
  "getAssignment assignments pid = find (\<lambda>a. projectId a = pid) assignments"

definition releasePorts :: "assignment list \<Rightarrow> string \<Rightarrow> assignment list" where
  "releasePorts assignments pid = filter (\<lambda>a. projectId a \<noteq> pid) assignments"

text \<open>The stores the allocator can produce, starting from the empty file.\<close>

inductive allocated :: "assignment list \<Rightarrow> bool" where
  alloc_empty: "allocated []"
| alloc_assign: "allocated s \<Longrightarrow> allocated (snd (assignPorts s pid pname now))"
| alloc_release: "allocated s \<Longrightarrow> allocated (releasePorts s pid)"

definition portsOf :: "assignment \<Rightarrow> nat set" where
  "portsOf a = {frontend a, backend a}"

text \<open>A port is free when neither reserved nor held by a stored assignment.\<close>

definition freePort :: "assignment list \<Rightarrow> nat \<Rightarrow> bool" where
  "freePort s p \<longleftrightarrow> p \<notin> set (getUsedPorts s)"

definition store_ok :: "assignment list \<Rightarrow> bool" where
  "store_ok s \<longleftrightarrow>
     distinct (concat (map (\<lambda>a. [frontend a, backend a]) s)) \<and>
     (\<forall>a \<in> set s. frontend a \<notin> set PLATFORM_PORTS \<and> backend a \<notin> set PLATFORM_PORTS)"

text \<open>A store after two allocations, used to exercise the allocator.\<close>

definition example_store :: "assignment list" where
  "example_store =
     snd (assignPorts (snd (assignPorts [] ''p1'' ''one'' ''t1'')) ''p2'' ''two'' ''t2'')"

subsection \<open>The scan\<close>

lemma scanPort_free: "scanPort used p \<notin> set used"
  by (induction used p rule: scanPort.induct) (subst scanPort.simps, simp)

lemma scanPort_ge: "p \<le> scanPort used p"
proof (induction used p rule: scanPort.induct)
  case (1 used port)
  show ?case
  proof (cases "port \<in> set used")
    case True
    with 1 have "port + 1 \<le> scanPort used (port + 1)" by simp
    with True show ?thesis by (subst scanPort.simps) simp
  next
    case False
    then show ?thesis by (subst scanPort.simps) simp
  qed
qed

lemma scanPort_least: "p \<le> q \<Longrightarrow> q \<notin> set used \<Longrightarrow> scanPort used p \<le> q"
proof (induction used p rule: scanPort.induct)
  case (1 used port)
  show ?case
  proof (cases "port \<in> set used")
    case True
    with 1 have "port \<noteq> q" by auto
    with 1 have "port + 1 \<le> q" by simp
    with 1 True have "scanPort used (port + 1) \<le> q" by simp
    with True show ?thesis by (subst scanPort.simps) simp
  next
    case False
    with 1 show ?thesis by (subst scanPort.simps) simp
  qed
qed

lemma findNextPort_free: "freePort s (findNextPort s p)"
  by (simp add: freePort_def findNextPort_def scanPort_free)

lemma findNextPort_ge: "p \<le> findNextPort s p"
  by (simp add: findNextPort_def scanPort_ge)

lemma findNextPort_least: "p \<le> q \<Longrightarrow> freePort s q \<Longrightarrow> findNextPort s p \<le> q"
  by (simp add: findNextPort_def freePort_def scanPort_least)

subsection \<open>The store invariant\<close>

lemma freePort_iff:
  "freePort s p \<longleftrightarrow>
     p \<notin> set PLATFORM_PORTS \<and> (\<forall>a \<in> set s. p \<noteq> frontend a \<and> p \<noteq> backend a)"
  by (auto simp: freePort_def getUsedPorts_def)

lemma store_ok_empty: "store_ok []"
  by (simp add: store_ok_def)

lemma store_ok_append:
  assumes "store_ok s" "freePort s f" "freePort s b" "f \<noteq> b"
  shows "store_ok (s @ [\<lparr>projectId = pid, projectName = pname, frontend = f,
                          backend = b, assignedAt = now\<rparr>])"
  using assms by (auto simp: store_ok_def freePort_iff)

lemma store_ok_assign: "store_ok s \<Longrightarrow> store_ok (snd (assignPorts s pid pname now))"
proof (cases "find (\<lambda>a. projectId a = pid) s")
  case None
  assume ok: "store_ok s"
  let ?f = "findNextPort s STARTING_PORT"
  let ?b = "findNextPort s (?f + 1)"
  have "?f + 1 \<le> ?b" by (rule findNextPort_ge)
  then have "?f \<noteq> ?b" by simp
  with ok have "store_ok (s @ [\<lparr>projectId = pid, projectName = pname, frontend = ?f,
                                 backend = ?b, assignedAt = now\<rparr>])"
    by (intro store_ok_append findNextPort_free)
  with None show ?thesis by (simp add: assignPorts_def Let_def)
next
  case (Some a)
  assume "store_ok s"
  with Some show ?thesis by (simp add: assignPorts_def)
qed

lemma distinct_concat_filter:
  "distinct (concat (map f xs)) \<Longrightarrow> distinct (concat (map f (filter P xs)))"
  by (induction xs) auto

lemma store_ok_release: "store_ok s \<Longrightarrow> store_ok (releasePorts s pid)"
  by (auto simp: store_ok_def releasePorts_def distinct_concat_filter)

lemma allocated_store_ok: "allocated s \<Longrightarrow> store_ok s"
  by (induction rule: allocated.induct)
     (simp_all add: store_ok_empty store_ok_assign store_ok_release)

lemma store_ok_disjoint:
  assumes "store_ok s" "a \<in> set s" "b \<in> set s" "a \<noteq> b"
  shows "portsOf a \<inter> portsOf b = {}"
proof -
  from assms(2) obtain xs ys where s: "s = xs @ a # ys"
    by (auto simp: in_set_conv_decomp)
  with assms(3,4) have "b \<in> set xs \<or> b \<in> set ys" by auto
  with assms(1) s show ?thesis
    by (auto simp: store_ok_def portsOf_def)
qed

lemma findNextPort_gap: "p \<le> q \<Longrightarrow> q < findNextPort s p \<Longrightarrow> \<not> freePort s q"
  using findNextPort_least [of p q s] by auto

lemma example_store_eq:
  "example_store =
     [\<lparr>projectId = ''p1'', projectName = ''one'', frontend = 4000, backend = 4001,
        assignedAt = ''t1''\<rparr>,
      \<lparr>projectId = ''p2'', projectName = ''two'', frontend = 4002, backend = 4003,
        assignedAt = ''t2''\<rparr>]"
  by (simp add: example_store_def assignPorts_def findNextPort_def getUsedPorts_def
      PLATFORM_PORTS_def STARTING_PORT_def scanPort.simps Let_def)

text \<open>
  Claim C9. In every store the allocator can reach, two assignments of different projects
  have disjoint port sets and no port of theirs is a reserved platform port. For a project
  without an assignment, the frontend port is the first free port from 4000 upwards and the
  backend port is the first free port from \<open>frontendPort + 1\<close> upwards.
\<close>

theorem port_uniqueness:
  assumes "allocated s"
  shows "(\<forall>a \<in> set s. \<forall>b \<in> set s. projectId a \<noteq> projectId b \<longrightarrow>
            portsOf a \<inter> portsOf b = {} \<and>
            portsOf a \<inter> set PLATFORM_PORTS = {} \<and> portsOf b \<inter> set PLATFORM_PORTS = {}) \<and>
         (\<forall>pid pname now. getAssignment s pid = None \<longrightarrow>
            (let n = fst (assignPorts s pid pname now) in
               STARTING_PORT \<le> frontend n \<and> freePort s (frontend n) \<and>
               (\<forall>q. STARTING_PORT \<le> q \<and> q < frontend n \<longrightarrow> \<not> freePort s q) \<and>
               frontend n + 1 \<le> backend n \<and> freePort s (backend n) \<and>
               (\<forall>q. frontend n + 1 \<le> q \<and> q < backend n \<longrightarrow> \<not> freePort s q)))"
proof (intro conjI ballI allI impI)
  fix a b assume ab: "a \<in> set s" "b \<in> set s" "projectId a \<noteq> projectId b"
  from assms have ok: "store_ok s" by (rule allocated_store_ok)
  from ab have "a \<noteq> b" by auto
  with ok ab show "portsOf a \<inter> portsOf b = {}" by (intro store_ok_disjoint)
  from ok ab show "portsOf a \<inter> set PLATFORM_PORTS = {}" "portsOf b \<inter> set PLATFORM_PORTS = {}"
    by (auto simp: store_ok_def portsOf_def)
next
  fix pid pname now assume "getAssignment s pid = None"
  then have n: "fst (assignPorts s pid pname now) =
     \<lparr>projectId = pid, projectName = pname, frontend = findNextPort s STARTING_PORT,
      backend = findNextPort s (findNextPort s STARTING_PORT + 1), assignedAt = now\<rparr>"
    by (simp add: getAssignment_def assignPorts_def Let_def)
  show "let n = fst (assignPorts s pid pname now) in
               STARTING_PORT \<le> frontend n \<and> freePort s (frontend n) \<and>
               (\<forall>q. STARTING_PORT \<le> q \<and> q < frontend n \<longrightarrow> \<not> freePort s q) \<and>
               frontend n + 1 \<le> backend n \<and> freePort s (backend n) \<and>
               (\<forall>q. frontend n + 1 \<le> q \<and> q < backend n \<longrightarrow> \<not> freePort s q)"
    unfolding n Let_def
    by (auto simp: findNextPort_ge findNextPort_free findNextPort_gap simp del: One_nat_def)
qed

theorem port_uniqueness_witness:
  "portsOf \<lparr>projectId = ''p1'', projectName = ''one'', frontend = 4000, backend = 4001,
              assignedAt = ''t1''\<rparr> \<inter>
   portsOf \<lparr>projectId = ''p2'', projectName = ''two'', frontend = 4002, backend = 4003,
              assignedAt = ''t2''\<rparr> = {} \<and>
   frontend (fst (assignPorts example_store ''p3'' ''three'' ''t3'')) = 4004 \<and>
   backend (fst (assignPorts example_store ''p3'' ''three'' ''t3'')) = 4005 \<and>
   \<not> freePort example_store 4003"
proof -
  have alloc: "allocated example_store"
    unfolding example_store_def by (intro allocated.intros)
  have none: "getAssignment example_store ''p3'' = None"
    by (simp add: example_store_eq getAssignment_def)
  have n: "fst (assignPorts example_store ''p3'' ''three'' ''t3'') =
      \<lparr>projectId = ''p3'', projectName = ''three'', frontend = 4004, backend = 4005,
       assignedAt = ''t3''\<rparr>"
    by (simp add: example_store_eq assignPorts_def findNextPort_def getUsedPorts_def
        PLATFORM_PORTS_def STARTING_PORT_def scanPort.simps Let_def)
  note pu = port_uniqueness [OF alloc]
  from pu have disj: "portsOf \<lparr>projectId = ''p1'', projectName = ''one'', frontend = 4000,
      backend = 4001, assignedAt = ''t1''\<rparr> \<inter>
   portsOf \<lparr>projectId = ''p2'', projectName = ''two'', frontend = 4002, backend = 4003,
      assignedAt = ''t2''\<rparr> = {}"
    by (simp add: example_store_eq)
  from pu none
  have "\<forall>q. STARTING_PORT \<le> q \<and> q < 4004 \<longrightarrow> \<not> freePort example_store q"
    unfolding Let_def n [symmetric] by (metis n select_convs(3))
  then have "\<not> freePort example_store 4003"
    by (simp add: STARTING_PORT_def)
  with disj n show ?thesis by simp
qed

section \<open>State of the backend process\<close>

text \<open>
  The module-level maps of the backend (the project store of \<open>models/Project.js\<close>, the
  port assignments, \<open>activeGenerations\<close> of \<open>routes/generate.js\<close>, \<open>runningApps\<close> of
  \<open>services/deploymentManager.js\<close>, \<open>runningProcesses\<close> of \<open>routes/deploy.js\<close>) and what
  the process has done to the outside: the events written to streaming clients, the files
  on disk and the session removals scheduled with \<open>setTimeout\<close>. Time stamps and durations
  are left out: no function modelled here reads them back.
\<close>

datatype phase_status = Pending | InProgress | Completed | Failed

datatype log_type = Info | Success | Warning | Error | Thinking

record phase =
  ph_id :: string
  ph_label :: string
  ph_weight :: nat
  ph_status :: phase_status
  ph_filesGenerated :: nat

record gen_stats =
  backendFiles :: nat
  frontendFiles :: nat
  databaseFiles :: nat
  infraFiles :: nat
  docFiles :: nat
  totalFiles :: nat
  totalLines :: nat

record test_result =
  t_success :: bool
  t_error :: "string option"

text \<open>
  The events of the stream. A \<open>state\<close> event carries the last 50 log entries; a
  \<open>complete\<close> event is modelled with its success flag and list of saved files.
\<close>

datatype event =
    EvConnected string
  | EvState "phase list" rat "(string \<times> log_type) list" gen_stats string
  | EvLog string log_type
  | EvPhase string phase_status nat rat "phase list"
  | EvStats gen_stats
  | EvComplete bool "string list"
  | EvError string
  | EvCancelled string

text \<open>A client of a session is the handle of its response stream.\<close>

record generation =
  g_status :: string
  g_clients :: "nat list"
  g_phases :: "phase list"
  g_progress :: rat
  g_logs :: "(string \<times> log_type) list"
  g_stats :: gen_stats

text \<open>
  The fields of a project record that the modelled operations read or write; \<open>config\<close>,
  \<open>generationPrompt\<close>, \<open>generationStats\<close>, \<open>urls\<close>, \<open>userId\<close> and the two dates are left out.
  The status is the string the code stores.
\<close>

record project =
  p_id :: string
  p_name :: string
  p_description :: string
  p_status :: string
  p_slug :: "string option"
  p_outputPath :: "string option"
  p_generatedFiles :: "string list"
  p_testResults :: "test_result option"
  p_error :: "string option"
  p_ports :: "assignment option"

text \<open>
  What a file on disk holds: text produced by a generation phase, or one of the files the
  backend renders itself from the values shown (the rendering is not modelled).
\<close>

datatype file_body =
    Text string
  | BackendPackageJson string
  | FrontendPackageJson string
  | BackendEnv assignment string string
  | FrontendEnv assignment
  | Metadata string "string list"

record sys =
  projects :: "string \<rightharpoonup> project"
  portAssignments :: "assignment list"
  activeGenerations :: "string \<rightharpoonup> generation"
  written :: "(nat \<times> event) list"
  timers :: "string list"
  runningApps :: "string \<rightharpoonup> assignment"
  runningProcesses :: "string \<rightharpoonup> assignment"
  disk :: "(string \<times> string) \<rightharpoonup> file_body"

definition empty_sys :: sys where
  "empty_sys =
     \<lparr>projects = Map.empty, portAssignments = [], activeGenerations = Map.empty, written = [],
      timers = [], runningApps = Map.empty, runningProcesses = Map.empty, disk = Map.empty\<rparr>"

section \<open>Project store (models/Project.js)\<close>

definition DRAFT :: string where "DRAFT = ''draft''"
definition GENERATING :: string where "GENERATING = ''generating''"
definition TESTING :: string where "TESTING = ''testing''"
definition DEPLOYED :: string where "DEPLOYED = ''deployed''"
definition FAILED :: string where "FAILED = ''failed''"

text \<open>The values of the \<open>ProjectStatus\<close> object.\<close>

definition ProjectStatus :: "string list" where
  "ProjectStatus = [DRAFT, GENERATING, TESTING, DEPLOYED, FAILED]"

text \<open>\<open>createProject\<close>; the fresh identifier is an input.\<close>

definition createProject :: "sys \<Rightarrow> string \<Rightarrow> string \<Rightarrow> string \<Rightarrow> sys" where
  "createProject s newId name description =
     s\<lparr>projects := (projects s)(newId \<mapsto>
        \<lparr>p_id = newId, p_name = (if name = [] then ''Untitled Project'' else name),
         p_description = description, p_status = DRAFT, p_slug = None, p_outputPath = None,
         p_generatedFiles = [], p_testResults = None, p_error = None, p_ports = None\<rparr>)\<rparr>"

text \<open>
  \<open>updateProject\<close> spreads the given fields over the stored record and keeps the id; a
  missing project is left alone. The fields are given as a record update.
\<close>

definition updateProject :: "sys \<Rightarrow> string \<Rightarrow> (project \<Rightarrow> project) \<Rightarrow> sys" where
  "updateProject s pid updates =
     (case projects s pid of
        None \<Rightarrow> s
      | Some p \<Rightarrow> s\<lparr>projects := (projects s)(pid \<mapsto> (updates p)\<lparr>p_id := p_id p\<rparr>)\<rparr>)"

text \<open>
  \<open>deleteProject\<close> removes the record, the project folder and the port assignment.
\<close>

definition deleteProject :: "sys \<Rightarrow> string \<Rightarrow> sys" where
  "deleteProject s pid =
     (case projects s pid of
        None \<Rightarrow> s
      | Some p \<Rightarrow>
          s\<lparr>projects := (projects s)(pid := None),
            disk := (\<lambda>(dir, rel). if Some dir = p_outputPath p then None else disk s (dir, rel)),
            portAssignments := releasePorts (portAssignments s) pid\<rparr>)"

definition statusOf :: "sys \<Rightarrow> string \<Rightarrow> string option" where
  "statusOf s pid = map_option p_status (projects s pid)"

definition errorOf :: "sys \<Rightarrow> string \<Rightarrow> string option" where
  "errorOf s pid = (case projects s pid of None \<Rightarrow> None | Some p \<Rightarrow> p_error p)"

section \<open>Progress tracking of a generation session (routes/generate.js)\<close>

definition mk_phase :: "string \<Rightarrow> string \<Rightarrow> nat \<Rightarrow> phase" where
  "mk_phase i l w =
     \<lparr>ph_id = i, ph_label = l, ph_weight = w, ph_status = Pending, ph_filesGenerated = 0\<rparr>"

text \<open>\<open>BATCH_PHASES\<close>, already mapped to pending phases without files as every caller does.\<close>

definition BATCH_PHASES :: "phase list" where
  "BATCH_PHASES =
     [mk_phase ''setup'' ''Setting up project structure'' 5,
      mk_phase ''backend'' ''Generating backend API'' 30,
      mk_phase ''frontend'' ''Building frontend components'' 25,
      mk_phase ''database'' ''Creating database schema'' 15,
      mk_phase ''infrastructure'' ''Setting up infrastructure'' 10,
      mk_phase ''documentation'' ''Writing documentation'' 10,
      mk_phase ''finalizing'' ''Finalizing project'' 5]"

definition new_generation :: "string \<Rightarrow> generation" where
  "new_generation st =
     \<lparr>g_status = st, g_clients = [], g_phases = BATCH_PHASES, g_progress = 0, g_logs = [],
      g_stats = \<lparr>backendFiles = 0, frontendFiles = 0, databaseFiles = 0, infraFiles = 0,
                  docFiles = 0, totalFiles = 0, totalLines = 0\<rparr>\<rparr>"

text \<open>\<open>sendProgressUpdate\<close> writes the event to every client of the session, if there is one.\<close>

definition sendProgressUpdate :: "sys \<Rightarrow> string \<Rightarrow> event \<Rightarrow> sys" where
  "sendProgressUpdate s pid ev =
     (case activeGenerations s pid of
        None \<Rightarrow> s
      | Some g \<Rightarrow> s\<lparr>written := written s @ map (\<lambda>c. (c, ev)) (g_clients g)\<rparr>)"

definition setGeneration :: "sys \<Rightarrow> string \<Rightarrow> generation \<Rightarrow> sys" where
  "setGeneration s pid g = s\<lparr>activeGenerations := (activeGenerations s)(pid \<mapsto> g)\<rparr>"

definition addLog :: "sys \<Rightarrow> string \<Rightarrow> string \<Rightarrow> log_type \<Rightarrow> sys" where
  "addLog s pid message ty =
     (case activeGenerations s pid of
        None \<Rightarrow> s
      | Some g \<Rightarrow>
          sendProgressUpdate (setGeneration s pid (g\<lparr>g_logs := g_logs g @ [(message, ty)]\<rparr>))
            pid (EvLog message ty))"

text \<open>
  The two accumulators of the \<open>forEach\<close> in \<open>updatePhase\<close>. The weights are integers, so
  \<open>p.weight * 0.5\<close> and the sums are multiples of one half and exact in floating point;
  the model computes them in the rationals.
\<close>

definition addWeights :: "phase \<Rightarrow> rat \<times> rat \<Rightarrow> rat \<times> rat" where
  "addWeights p acc =
     (case acc of (completedWeight, inProgressWeight) \<Rightarrow>
        if ph_status p = Completed then (completedWeight + of_nat (ph_weight p), inProgressWeight)
        else if ph_status p = InProgress
          then (completedWeight, inProgressWeight + of_nat (ph_weight p) * (1 / 2))
        else (completedWeight, inProgressWeight))"

definition recalcProgress :: "phase list \<Rightarrow> rat" where
  "recalcProgress phases =
     (case fold addWeights phases (0, 0) of
        (completedWeight, inProgressWeight) \<Rightarrow> min 100 (completedWeight + inProgressWeight))"

text \<open>
  \<open>phases.find\<close> returns the first phase with the id; that phase object is mutated in
  place, so the model replaces the first match in the list.
\<close>

fun setPhase :: "phase list \<Rightarrow> string \<Rightarrow> phase_status \<Rightarrow> nat \<Rightarrow> phase list" where
  "setPhase [] phaseId st filesCount = []"
| "setPhase (p # ps) phaseId st filesCount =
     (if ph_id p = phaseId
      then (if filesCount > 0
            then p\<lparr>ph_status := st, ph_filesGenerated := filesCount\<rparr>
            else p\<lparr>ph_status := st\<rparr>) # ps
      else p # setPhase ps phaseId st filesCount)"

definition updatePhase :: "sys \<Rightarrow> string \<Rightarrow> string \<Rightarrow> phase_status \<Rightarrow> nat \<Rightarrow> sys" where
  "updatePhase s pid phaseId st filesCount =
     (case activeGenerations s pid of
        None \<Rightarrow> s
      | Some g \<Rightarrow>
          (case find (\<lambda>p. ph_id p = phaseId) (g_phases g) of
             None \<Rightarrow> s
           | Some _ \<Rightarrow>
               (let phases = setPhase (g_phases g) phaseId st filesCount;
                    progress = recalcProgress phases
                in sendProgressUpdate
                     (setGeneration s pid (g\<lparr>g_phases := phases, g_progress := progress\<rparr>))
                     pid (EvPhase phaseId st filesCount progress phases))))"

definition updateStats :: "sys \<Rightarrow> string \<Rightarrow> (gen_stats \<Rightarrow> gen_stats) \<Rightarrow> sys" where
  "updateStats s pid updates =
     (case activeGenerations s pid of
        None \<Rightarrow> s
      | Some g \<Rightarrow>
          sendProgressUpdate (setGeneration s pid (g\<lparr>g_stats := updates (g_stats g)\<rparr>))
            pid (EvStats (updates (g_stats g))))"

text \<open>What a phase contributes to the progress value, and the order of contributions.\<close>

definition contribution :: "phase \<Rightarrow> rat" where
  "contribution p =
     (if ph_status p = Completed then of_nat (ph_weight p)
      else if ph_status p = InProgress then of_nat (ph_weight p) / 2
      else 0)"

fun rank :: "phase_status \<Rightarrow> nat" where
  "rank Completed = 2"
| "rank InProgress = 1"
| "rank Pending = 0"
| "rank Failed = 0"

text \<open>No phase that was completed has left that state.\<close>

definition keepsCompleted :: "phase list \<Rightarrow> phase list \<Rightarrow> bool" where
  "keepsCompleted before after \<longleftrightarrow>
     list_all2 (\<lambda>p q. ph_status p = Completed \<longrightarrow> ph_status q = Completed) before after"

definition phasesOf :: "sys \<Rightarrow> string \<Rightarrow> phase list" where
  "phasesOf s pid = (case activeGenerations s pid of None \<Rightarrow> [] | Some g \<Rightarrow> g_phases g)"

definition progressOf :: "sys \<Rightarrow> string \<Rightarrow> rat option" where
  "progressOf s pid = map_option g_progress (activeGenerations s pid)"

text \<open>
  The state of a run of project \<open>p1\<close> whose backend phase has just started, and after that
  phase failed: the \<open>updatePhase\<close> calls \<open>runBatchGeneration\<close> makes up to its first \<open>catch\<close>.
\<close>

definition backend_started :: sys where
  "backend_started =
     updatePhase (updatePhase (updatePhase
       (setGeneration empty_sys ''p1'' (new_generation ''generating''))
       ''p1'' ''setup'' InProgress 0) ''p1'' ''setup'' Completed 0) ''p1'' ''backend'' InProgress 0"

definition backend_failed :: sys where
  "backend_failed = updatePhase backend_started ''p1'' ''backend'' Failed 0"

subsection \<open>Progress is the capped sum of contributions\<close>



lemma fold_addWeights:
  "fold addWeights ps (c, i) =
     (c + sum_list (map (\<lambda>p. if ph_status p = Completed then of_nat (ph_weight p) else 0) ps),
      i + sum_list (map (\<lambda>p. if ph_status p = InProgress then of_nat (ph_weight p) * (1/2) else 0) ps))"
  by (induction ps arbitrary: c i) (auto simp: addWeights_def)

lemma recalcProgress_eq: "recalcProgress ps = min 100 (sum_list (map contribution ps))"
proof -
  have "sum_list (map (\<lambda>p. if ph_status p = Completed then of_nat (ph_weight p) else 0) ps) +
        sum_list (map (\<lambda>p. if ph_status p = InProgress then of_nat (ph_weight p) * (1/2) else (0::rat)) ps)
        = sum_list (map contribution ps)"
    by (induction ps) (auto simp: contribution_def)
  then show ?thesis
    by (simp add: recalcProgress_def fold_addWeights)
qed

lemma contribution_le: "contribution p \<le> of_nat (ph_weight p)"
  by (simp add: contribution_def)

lemma contribution_full: "0 < ph_weight p \<Longrightarrow> contribution p = of_nat (ph_weight p) \<longleftrightarrow> ph_status p = Completed"
  by (auto simp: contribution_def)

lemma sum_contribution_le: "sum_list (map contribution ps) \<le> of_nat (sum_list (map ph_weight ps))"
  by (induction ps) (auto intro: add_mono contribution_le)

lemma sum_contribution_full:
  "\<forall>p \<in> set ps. 0 < ph_weight p \<Longrightarrow>
   sum_list (map contribution ps) = of_nat (sum_list (map ph_weight ps)) \<longleftrightarrow>
   (\<forall>p \<in> set ps. ph_status p = Completed)"
proof (induction ps)
  case Nil
  then show ?case by simp
next
  case (Cons p ps)
  have a: "contribution p \<le> of_nat (ph_weight p)" by (rule contribution_le)
  have b: "sum_list (map contribution ps) \<le> of_nat (sum_list (map ph_weight ps))" by (rule sum_contribution_le)
  from Cons.prems have w: "0 < ph_weight p" by simp
  have "contribution p + sum_list (map contribution ps) = of_nat (ph_weight p) + of_nat (sum_list (map ph_weight ps))
     \<longleftrightarrow> contribution p = of_nat (ph_weight p) \<and> sum_list (map contribution ps) = of_nat (sum_list (map ph_weight ps))"
    using a b by linarith
  with Cons w show ?case by (simp add: contribution_full)
qed

lemma setPhase_weights: "map ph_weight (setPhase ps i st n) = map ph_weight ps"
  by (induction ps) auto

lemma contribution_rank: "rank (ph_status p) \<le> rank st \<Longrightarrow> ph_weight q = ph_weight p \<Longrightarrow> ph_status q = st \<Longrightarrow> contribution p \<le> contribution q"
  by (cases "ph_status p"; cases st) (auto simp: contribution_def)

lemma setPhase_mono:
  "find (\<lambda>p. ph_id p = i) ps = Some ph \<Longrightarrow> rank (ph_status ph) \<le> rank st \<Longrightarrow>
   sum_list (map contribution ps) \<le> sum_list (map contribution (setPhase ps i st n))"
proof (induction ps)
  case Nil
  then show ?case by simp
next
  case (Cons p ps)
  show ?case
  proof (cases "ph_id p = i")
    case True
    with Cons.prems have "ph = p" by simp
    with Cons.prems True show ?thesis
      by (auto intro!: contribution_rank)
  next
    case False
    with Cons show ?thesis by simp
  qed
qed
lemma updatePhase_found:
  assumes "activeGenerations s pid = Some g" "find (\<lambda>p. ph_id p = i) (g_phases g) = Some ph"
  shows "phasesOf (updatePhase s pid i st n) pid = setPhase (g_phases g) i st n"
    and "progressOf (updatePhase s pid i st n) pid =
           Some (recalcProgress (setPhase (g_phases g) i st n))"
  using assms
  by (simp_all add: updatePhase_def setGeneration_def sendProgressUpdate_def phasesOf_def
      progressOf_def Let_def)

text \<open>
  Claim C4, as amended. On a status change of an existing phase the progress value becomes
  the sum of the full weights of the completed phases and half the weights of the phases
  in progress, capped at 100. With positive weights that sum to 100 it is 100 exactly when
  every phase is completed. It does not fall below the previous reading when the changed
  phase does not move to a status of lower rank, where completed ranks above in progress
  and in progress above pending and failed.
\<close>

theorem progress_recomputed:
  assumes "activeGenerations s pid = Some g"
    and "find (\<lambda>p. ph_id p = i) (g_phases g) = Some ph"
    and "\<forall>p \<in> set (g_phases g). 0 < ph_weight p"
    and "sum_list (map ph_weight (g_phases g)) = 100"
  shows "progressOf (updatePhase s pid i st n) pid =
           Some (min 100 (sum_list (map contribution (phasesOf (updatePhase s pid i st n) pid)))) \<and>
         (progressOf (updatePhase s pid i st n) pid = Some 100 \<longleftrightarrow>
            (\<forall>p \<in> set (phasesOf (updatePhase s pid i st n) pid). ph_status p = Completed)) \<and>
         (rank (ph_status ph) \<le> rank st \<and> g_progress g = recalcProgress (g_phases g) \<longrightarrow>
            (\<exists>r. progressOf (updatePhase s pid i st n) pid = Some r \<and> g_progress g \<le> r))"
proof -
  let ?ps = "setPhase (g_phases g) i st n"
  note u = updatePhase_found [where s = s and pid = pid and st = st and n = n, OF assms(1,2)]
  have w: "\<forall>p \<in> set ?ps. 0 < ph_weight p"
  proof -
    have "set (map ph_weight ?ps) = set (map ph_weight (g_phases g))"
      by (simp add: setPhase_weights)
    with assms(3) show ?thesis by (metis (no_types, lifting) imageE image_eqI list.set_map)
  qed
  have tot: "sum_list (map ph_weight ?ps) = 100"
    using assms(4) by (simp add: setPhase_weights)
  have le: "sum_list (map contribution ?ps) \<le> 100"
    using sum_contribution_le [of ?ps] tot by simp
  have full: "sum_list (map contribution ?ps) = 100 \<longleftrightarrow> (\<forall>p \<in> set ?ps. ph_status p = Completed)"
    using sum_contribution_full [OF w] tot by simp
  have 1: "recalcProgress ?ps = min 100 (sum_list (map contribution ?ps))"
    by (rule recalcProgress_eq)
  have 2: "recalcProgress ?ps = 100 \<longleftrightarrow> (\<forall>p \<in> set ?ps. ph_status p = Completed)"
    using le full by (simp add: 1 min_def)
  have 3: "g_progress g \<le> recalcProgress ?ps"
    if "rank (ph_status ph) \<le> rank st" "g_progress g = recalcProgress (g_phases g)"
    using setPhase_mono [OF assms(2) that(1), of n] that(2)
    by (simp add: recalcProgress_eq min_def)
  from 1 2 3 show ?thesis by (simp add: u)
qed


lemmas tracker_defs = updatePhase_def setGeneration_def sendProgressUpdate_def new_generation_def empty_sys_def
  BATCH_PHASES_def mk_phase_def recalcProgress_def addWeights_def Let_def

lemma backend_started_eq:
  "activeGenerations backend_started ''p1'' = Some
  \<lparr>g_status = ''generating'', g_clients = [],
     g_phases =
       [\<lparr>ph_id = ''setup'', ph_label = ''Setting up project structure'',
           ph_weight = 5, ph_status = Completed, ph_filesGenerated = 0\<rparr>,
        \<lparr>ph_id = ''backend'', ph_label = ''Generating backend API'',
           ph_weight = 30, ph_status = InProgress, ph_filesGenerated = 0\<rparr>,
        \<lparr>ph_id = ''frontend'', ph_label = ''Building frontend components'',
           ph_weight = 25, ph_status = Pending, ph_filesGenerated = 0\<rparr>,
        \<lparr>ph_id = ''database'', ph_label = ''Creating database schema'',
           ph_weight = 15, ph_status = Pending, ph_filesGenerated = 0\<rparr>,
        \<lparr>ph_id = ''infrastructure'',
           ph_label = ''Setting up infrastructure'', ph_weight = 10,
           ph_status = Pending, ph_filesGenerated = 0\<rparr>,
        \<lparr>ph_id = ''documentation'', ph_label = ''Writing documentation'',
           ph_weight = 10, ph_status = Pending, ph_filesGenerated = 0\<rparr>,
        \<lparr>ph_id = ''finalizing'', ph_label = ''Finalizing project'',
           ph_weight = 5, ph_status = Pending, ph_filesGenerated = 0\<rparr>],
     g_progress = 20, g_logs = [],
     g_stats =
       \<lparr>backendFiles = 0, frontendFiles = 0, databaseFiles = 0,
          infraFiles = 0, docFiles = 0, totalFiles = 0, totalLines = 0\<rparr>\<rparr>"
  by (simp add: backend_started_def tracker_defs)

text \<open>
  Claim C4 as stated fails: when the backend phase goes from in progress to failed, no
  phase leaves the completed state and the progress reading falls from 20 to 5.
\<close>

theorem progress_monotonicity_counterexample:
  "keepsCompleted (phasesOf backend_started ''p1'') (phasesOf backend_failed ''p1'') \<and>
   progressOf backend_started ''p1'' = Some 20 \<and>
   progressOf backend_failed ''p1'' = Some 5"
  by (simp add: backend_failed_def backend_started_eq keepsCompleted_def phasesOf_def
      progressOf_def tracker_defs)

theorem progress_recomputed_witness:
  "progressOf (updatePhase backend_started ''p1'' ''backend'' Completed 7) ''p1'' = Some 35 \<and>
   progressOf backend_started ''p1'' = Some 20 \<and>
   \<not> (\<forall>p \<in> set (phasesOf (updatePhase backend_started ''p1'' ''backend'' Completed 7) ''p1'').
        ph_status p = Completed)"
proof -
  let ?g = "the (activeGenerations backend_started ''p1'')"
  let ?ph = "\<lparr>ph_id = ''backend'', ph_label = ''Generating backend API'',
           ph_weight = 30, ph_status = InProgress, ph_filesGenerated = 0\<rparr>"
  have a: "activeGenerations backend_started ''p1'' = Some ?g"
    by (simp add: backend_started_eq)
  have b: "find (\<lambda>p. ph_id p = ''backend'') (g_phases ?g) = Some ?ph"
    by (simp add: backend_started_eq)
  have c: "\<forall>p \<in> set (g_phases ?g). 0 < ph_weight p"
    by (simp add: backend_started_eq)
  have d: "sum_list (map ph_weight (g_phases ?g)) = 100"
    by (simp add: backend_started_eq)
  have e: "rank (ph_status ?ph) \<le> rank Completed \<and> g_progress ?g = recalcProgress (g_phases ?g)"
    by (simp add: backend_started_eq recalcProgress_def addWeights_def)
  have f: "progressOf (updatePhase backend_started ''p1'' ''backend'' Completed 7) ''p1'' = Some 35"
    by (simp add: backend_started_eq progressOf_def tracker_defs)
  note th = progress_recomputed [where s = backend_started and pid = "''p1''"
      and st = Completed and n = 7, OF a b c d]
  from th have "progressOf (updatePhase backend_started ''p1'' ''backend'' Completed 7) ''p1'' = Some 100
      \<longleftrightarrow> (\<forall>p \<in> set (phasesOf (updatePhase backend_started ''p1'' ''backend'' Completed 7) ''p1'').
        ph_status p = Completed)"
    by blast
  with f have g: "\<not> (\<forall>p \<in> set (phasesOf (updatePhase backend_started ''p1'' ''backend'' Completed 7) ''p1'').
        ph_status p = Completed)"
    by simp
  from th e have "\<exists>r. progressOf (updatePhase backend_started ''p1'' ''backend'' Completed 7) ''p1'' = Some r
      \<and> g_progress ?g \<le> r"
    by blast
  have "progressOf backend_started ''p1'' = Some 20"
    by (simp add: progressOf_def backend_started_eq)
  with f g show ?thesis by simp
qed

section \<open>Starting and stopping a generated application\<close>

text \<open>
  \<open>deployLocal\<close> of \<open>services/deploymentManager.js\<close>. The project path is
  \<open>project.outputPath || project.path\<close>; no operation gives a project record a \<open>path\<close>, so
  without an output path \<open>path.join\<close> is called with \<open>undefined\<close> and throws, before the
  \<open>try\<close>. The dependency installation and the two spawns are the outside world: \<open>fault\<close> is
  the message of the error they throw, if any. The child processes themselves, their output
  and their exit handlers are not modelled.
\<close>

definition PATH_TYPE_ERROR :: string where
  "PATH_TYPE_ERROR =
     ''The '' @ [CHR 0x22] @ ''path'' @ [CHR 0x22] @
     '' argument must be of type string. Received undefined''"

definition deployLocal :: "sys \<Rightarrow> string \<Rightarrow> string option \<Rightarrow> string + sys" where
  "deployLocal s pid fault =
     (case projects s pid of
        None \<Rightarrow> Inl ''Project not found''
      | Some project \<Rightarrow>
          (case getAssignment (portAssignments s) pid of
             None \<Rightarrow> Inl ''No ports assigned to project''
           | Some ports \<Rightarrow>
               if runningApps s pid \<noteq> None then Inr s
               else if p_outputPath project = None \<or> p_outputPath project = Some []
                 then Inl PATH_TYPE_ERROR
               else (case fault of
                       Some msg \<Rightarrow> Inl msg
                     | None \<Rightarrow>
                         Inr (updateProject (s\<lparr>runningApps := (runningApps s)(pid \<mapsto> ports)\<rparr>)
                                pid (\<lambda>p. p\<lparr>p_status := ''deployed''\<rparr>)))))"

text \<open>\<open>stopApp\<close> of the same module: nothing happens unless the application is registered.\<close>

definition stopApp :: "sys \<Rightarrow> string \<Rightarrow> sys" where
  "stopApp s pid =
     (case runningApps s pid of
        None \<Rightarrow> s
      | Some app \<Rightarrow>
          updateProject (s\<lparr>runningApps := (runningApps s)(pid := None)\<rparr>)
            pid (\<lambda>p. p\<lparr>p_status := ''stopped''\<rparr>))"

text \<open>
  The handler of \<open>POST /api/deploy/:projectId/stop\<close> in \<open>routes/deploy.js\<close>, which the
  handler of \<open>DELETE /api/projects/:id\<close> also calls: it updates the status whether or not
  a process was registered.
\<close>

definition stopRoute :: "sys \<Rightarrow> string \<Rightarrow> sys" where
  "stopRoute s pid =
     updateProject (s\<lparr>runningProcesses := (runningProcesses s)(pid := None)\<rparr>)
       pid (\<lambda>p. p\<lparr>p_status := ''stopped''\<rparr>)"

text \<open>
  A project that was created, the same project as a generation run leaves it (with its
  output path, its ports and the status \<open>deployed\<close>), and that project started with
  \<open>deployLocal\<close>.
\<close>

definition created_example :: sys where
  "created_example = createProject empty_sys ''p1'' ''Shop'' ''A shop''"

definition generated_example :: sys where
  "generated_example =
     (case assignPorts (portAssignments created_example) ''p1'' ''Shop'' ''t1'' of
        (ports, store) \<Rightarrow>
          updateProject (created_example\<lparr>portAssignments := store\<rparr>) ''p1''
            (\<lambda>p. p\<lparr>p_status := DEPLOYED, p_slug := Some ''shop'',
                    p_outputPath := Some ''/generated-apps/p1-shop'', p_ports := Some ports\<rparr>))"

definition running_example :: "string + sys" where
  "running_example = deployLocal generated_example ''p1'' None"

text \<open>
  Claim C10 fails on the code: stopping leaves the status \<open>stopped\<close>, which is not a value
  of \<open>ProjectStatus\<close>. This holds for the stop route on any stored project, here one just
  created and one that was generated, and for \<open>stopApp\<close> on a running application.
\<close>

theorem stop_status_outside_enum:
  "statusOf created_example ''p1'' = Some DRAFT \<and>
   statusOf (stopRoute created_example ''p1'') ''p1'' = Some ''stopped'' \<and>
   statusOf generated_example ''p1'' = Some DEPLOYED \<and>
   statusOf (stopRoute generated_example ''p1'') ''p1'' = Some ''stopped'' \<and>
   (case running_example of
      Inl msg \<Rightarrow> False
    | Inr s \<Rightarrow> statusOf s ''p1'' = Some DEPLOYED \<and> runningApps s ''p1'' \<noteq> None \<and>
               statusOf (stopApp s ''p1'') ''p1'' = Some ''stopped'') \<and>
   ''stopped'' \<notin> set ProjectStatus"
  by (simp add: running_example_def generated_example_def created_example_def createProject_def
      empty_sys_def assignPorts_def findNextPort_def getUsedPorts_def PLATFORM_PORTS_def
      STARTING_PORT_def scanPort.simps Let_def deployLocal_def getAssignment_def
      updateProject_def stopApp_def stopRoute_def statusOf_def ProjectStatus_def DRAFT_def
      GENERATING_def TESTING_def DEPLOYED_def FAILED_def)

section \<open>File maps and the multi-file parser (ai-engine multiFileGenerator.js)\<close>

text \<open>
  A JavaScript string is modelled as a \<open>string\<close>, one \<open>char\<close> per code unit, which covers
  the code units below 256. A file map, an object from paths to contents, is an association
  list with distinct keys in insertion order. (Keys that are canonical array indices are
  enumerated first by JavaScript; no function below depends on where such a key stands.)
\<close>

type_synonym files = "(string \<times> string) list"

text \<open>
  The assignment \<open>obj[key] = value\<close> on a plain object: an existing key keeps its place, a
  new key goes last, and assigning a string to \<open>__proto__\<close> changes nothing.
\<close>

definition setProp :: "files \<Rightarrow> string \<Rightarrow> string \<Rightarrow> files" where
  "setProp obj k v = (if k = ''__proto__'' then obj else AList.update k v obj)"

text \<open>Decimal digits of a number, as template literals and \<open>JSON.stringify\<close> print it.\<close>

fun showNat :: "nat \<Rightarrow> string" where
  "showNat n =
     (if n < 10 then [char_of (48 + n)]
      else showNat (n div 10) @ [char_of (48 + n mod 10)])"

declare showNat.simps [simp del]

text \<open>The characters matched by \<open>\s\<close> and removed by \<open>trim\<close>, among the code units below 256.\<close>

definition isSpace :: "char \<Rightarrow> bool" where
  "isSpace c \<longleftrightarrow>
     c \<in> {CHR 0x09, CHR 0x0A, CHR 0x0B, CHR 0x0C, CHR 0x0D, CHR 0x20, CHR 0xA0}"

definition trim :: "string \<Rightarrow> string" where
  "trim s = rev (dropWhile isSpace (rev (dropWhile isSpace s)))"

text \<open>\<open>stripPrefix p s\<close> is the rest of \<open>s\<close> after the literal \<open>p\<close>, when \<open>s\<close> starts with it.\<close>

definition stripPrefix :: "string \<Rightarrow> string \<Rightarrow> string option" where
  "stripPrefix p s =
     (if take (length p) s = p then Some (drop (length p) s) else None)"

definition END_FILE :: string where
  "END_FILE = ''===END FILE===''"

text \<open>
  The regular expression \<open>/===FILE:\s*([^\s=]+)\s*===\n([\s\S]*?)===END FILE===/g\<close>, matched
  at the start of a string. Its head \<open>===FILE:\s*([^\s=]+)\s*===\n\<close> can match in one way
  only: each greedy run is followed by a character outside its class, so giving back
  characters never helps. The lazy body ends at the first end marker.
\<close>

definition isPathChar :: "char \<Rightarrow> bool" where
  "isPathChar c \<longleftrightarrow> \<not> isSpace c \<and> c \<noteq> CHR ''=''"

definition matchHeader :: "string \<Rightarrow> (string \<times> string) option" where
  "matchHeader s =
     (case stripPrefix ''===FILE:'' s of
        None \<Rightarrow> None
      | Some s1 \<Rightarrow>
          (let s2 = dropWhile isSpace s1;
               path = takeWhile isPathChar s2;
               s3 = dropWhile isSpace (dropWhile isPathChar s2)
           in if path = [] then None
              else (case stripPrefix (''==='' @ [CHR 0x0A]) s3 of
                      None \<Rightarrow> None
                    | Some rest \<Rightarrow> Some (path, rest))))"

fun findEnd :: "string \<Rightarrow> (string \<times> string) option" where
  "findEnd [] = None"
| "findEnd (c # cs) =
     (case stripPrefix END_FILE (c # cs) of
        Some rest \<Rightarrow> Some ([], rest)
      | None \<Rightarrow> map_option (\<lambda>(content, rest). (c # content, rest)) (findEnd cs))"

definition matchFile :: "string \<Rightarrow> (string \<times> string \<times> string) option" where
  "matchFile s =
     (case matchHeader s of
        None \<Rightarrow> None
      | Some (path, s1) \<Rightarrow>
          (case findEnd s1 of
             None \<Rightarrow> None
           | Some (content, rest) \<Rightarrow> Some (path, content, rest)))"

lemma stripPrefix_Some: "stripPrefix p s = Some r \<longleftrightarrow> s = p @ r"
  by (auto simp: stripPrefix_def) (metis append_take_drop_id)

lemma findEnd_length: "findEnd s = Some (content, rest) \<Longrightarrow> length rest \<le> length s"
proof (induction s arbitrary: content)
  case Nil
  then show ?case by simp
next
  case (Cons c cs)
  show ?case
  proof (cases "stripPrefix END_FILE (c # cs)")
    case None
    with Cons.prems obtain content' where "findEnd cs = Some (content', rest)"
      by auto
    with Cons.IH have "length rest \<le> length cs" by simp
    then show ?thesis by simp
  next
    case (Some r)
    with Cons.prems have "r = rest" by simp
    with Some have "c # cs = END_FILE @ rest" by (simp add: stripPrefix_Some)
    then have "length (c # cs) = length END_FILE + length rest"
      by (metis length_append)
    then show ?thesis by simp
  qed
qed

lemma matchHeader_length: "matchHeader s = Some (path, rest) \<Longrightarrow> length rest < length s"
proof -
  assume m: "matchHeader s = Some (path, rest)"
  then obtain s1 where s1: "s = ''===FILE:'' @ s1"
    by (auto simp: matchHeader_def stripPrefix_Some split: option.splits)
  let ?s2 = "dropWhile isSpace s1"
  let ?s3 = "dropWhile isSpace (dropWhile isPathChar ?s2)"
  from m s1 have "stripPrefix (''==='' @ [CHR 0x0A]) ?s3 = Some rest"
    by (auto simp: matchHeader_def Let_def stripPrefix_Some split: option.splits if_splits)
  then have "?s3 = (''==='' @ [CHR 0x0A]) @ rest"
    by (simp only: stripPrefix_Some)
  then have "length rest \<le> length ?s3"
    by (metis length_append le_add2)
  also have "\<dots> \<le> length (dropWhile isPathChar ?s2)" by (rule length_dropWhile_le)
  also have "\<dots> \<le> length ?s2" by (rule length_dropWhile_le)
  also have "\<dots> \<le> length s1" by (rule length_dropWhile_le)
  also have "\<dots> < length s" by (simp add: s1)
  finally show ?thesis .
qed

lemma matchFile_length: "matchFile s = Some (path, content, rest) \<Longrightarrow> length rest < length s"
  by (auto simp: matchFile_def split: option.splits
      dest!: matchHeader_length findEnd_length)

text \<open>
  The \<open>while ((match = fileRegex.exec(response)) !== null)\<close> loop: the search for the next
  match moves on by one character where the expression does not match, and resumes after
  the end of a match.
\<close>

function parseFrom :: "string \<Rightarrow> files \<Rightarrow> files" where
  "parseFrom s files =
     (if s = [] then files
      else (case matchFile s of
              Some (path, content, rest) \<Rightarrow> parseFrom rest (setProp files (trim path) (trim content))
            | None \<Rightarrow> parseFrom (tl s) files))"
  by pat_completeness auto
termination
  by (relation "measure (\<lambda>(s, files). length s)") (auto dest: matchFile_length)

declare parseFrom.simps [simp del]

definition parseMultiFileResponse :: "string \<Rightarrow> files" where
  "parseMultiFileResponse response = parseFrom response []"

text \<open>
  Modelled from the spec: the serializer is not part of the repository. An entry is written
  in the marker format of the system prompt, \<open>===FILE: path===\<close>, a line break, the content,
  a line break, \<open>===END FILE===\<close> and a line break; a file map is the concatenation of its
  entries.
\<close>

definition serializeFile :: "string \<times> string \<Rightarrow> string" where
  "serializeFile e =
     ''===FILE: '' @ fst e @ ''==='' @ [CHR 0x0A] @ snd e @ [CHR 0x0A] @ END_FILE @ [CHR 0x0A]"

definition serializeFiles :: "files \<Rightarrow> string" where
  "serializeFiles fs = concat (map serializeFile fs)"


text \<open>
  The paths and contents the marker format can carry: a path is not empty, holds no white
  space and no \<open>=\<close>, and is not \<open>__proto__\<close>; a content has no white space at either end and
  does not contain the end marker.
\<close>

definition validPath :: "string \<Rightarrow> bool" where
  "validPath p \<longleftrightarrow> p \<noteq> [] \<and> list_all isPathChar p \<and> p \<noteq> ''__proto__''"

definition validContent :: "string \<Rightarrow> bool" where
  "validContent c \<longleftrightarrow> trim c = c \<and> findEnd c = None"

lemma stripPrefix_None: "stripPrefix p s = None \<longleftrightarrow> take (length p) s \<noteq> p"
  by (simp add: stripPrefix_def)

lemma stripPrefix_same [simp]: "stripPrefix p (p @ r) = Some r"
  by (simp add: stripPrefix_Some)

lemma LF_notin_END: "CHR 0x0A \<notin> set END_FILE"
  by (simp add: END_FILE_def)

lemma stripPrefix_END_append:
  assumes "stripPrefix END_FILE u = None"
  shows "stripPrefix END_FILE (u @ CHR 0x0A # v) = None"
proof (rule ccontr)
  assume "stripPrefix END_FILE (u @ CHR 0x0A # v) \<noteq> None"
  then obtain r where r: "u @ CHR 0x0A # v = END_FILE @ r"
    by (auto simp: stripPrefix_Some)
  show False
  proof (cases "length END_FILE \<le> length u")
    case True
    from r have "take (length END_FILE) (u @ CHR 0x0A # v) = END_FILE" by simp
    with True have "take (length END_FILE) u = END_FILE" by simp
    with assms show False by (simp add: stripPrefix_None)
  next
    case False
    then have lt: "length u < length END_FILE" by simp
    from r have "(u @ CHR 0x0A # v) ! length u = (END_FILE @ r) ! length u" by simp
    with lt have "END_FILE ! length u = CHR 0x0A" by (simp add: nth_append)
    with lt have "CHR 0x0A \<in> set END_FILE" by (metis nth_mem)
    with LF_notin_END show False by simp
  qed
qed

lemma findEnd_END [simp]: "findEnd (END_FILE @ rest) = Some ([], rest)"
proof -
  obtain c cs where e: "END_FILE = c # cs" by (simp add: END_FILE_def)
  have "findEnd ((c # cs) @ rest) = Some ([], rest)"
    using stripPrefix_same [of END_FILE rest] by (simp add: e)
  then show ?thesis by (simp add: e)
qed

lemma findEnd_content:
  "findEnd c = None \<Longrightarrow> findEnd (c @ CHR 0x0A # END_FILE @ rest) = Some (c @ [CHR 0x0A], rest)"
proof (induction c)
  case Nil
  have "stripPrefix END_FILE (CHR 0x0A # END_FILE @ rest) = None"
    by (simp add: stripPrefix_def END_FILE_def)
  then show ?case by simp
next
  case (Cons x xs)
  from Cons.prems have a: "stripPrefix END_FILE (x # xs) = None" and b: "findEnd xs = None"
    by (auto split: option.splits)
  from a have "stripPrefix END_FILE ((x # xs) @ CHR 0x0A # END_FILE @ rest) = None"
    by (rule stripPrefix_END_append)
  with Cons.IH [OF b] show ?case by simp
qed

lemma dropWhile_same_length: "length (dropWhile P xs) = length xs \<Longrightarrow> dropWhile P xs = xs"
proof -
  assume l: "length (dropWhile P xs) = length xs"
  have "length (takeWhile P xs) + length (dropWhile P xs) = length xs"
    by (metis length_append takeWhile_dropWhile_id)
  with l have "takeWhile P xs = []" by simp
  then show ?thesis by (metis append_Nil takeWhile_dropWhile_id)
qed

lemma trim_nonempty:
  assumes t: "trim c = c" and ne: "c \<noteq> []"
  shows "\<not> isSpace (hd c) \<and> \<not> isSpace (last c)"
proof -
  let ?d = "dropWhile isSpace c"
  let ?e = "dropWhile isSpace (rev ?d)"
  from t have c: "rev ?e = c" by (simp add: trim_def)
  then have "length c = length ?e" by (metis length_rev)
  also have "\<dots> \<le> length (rev ?d)" by (rule length_dropWhile_le)
  finally have le: "length c \<le> length ?d" by simp
  have "length ?d \<le> length c" by (rule length_dropWhile_le)
  with le have "length ?d = length c" by simp
  then have d: "?d = c" by (rule dropWhile_same_length)
  with ne have h: "\<not> isSpace (hd c)" by (metis hd_dropWhile)
  from c d have e: "dropWhile isSpace (rev c) = rev c" by (metis rev_rev_ident)
  from ne have "rev c \<noteq> []" by simp
  with e have "\<not> isSpace (hd (rev c))" by (metis hd_dropWhile)
  with ne have "\<not> isSpace (last c)" by (simp add: hd_rev)
  with h show ?thesis by simp
qed

lemma dropWhile_id: "xs = [] \<or> \<not> P (hd xs) \<Longrightarrow> dropWhile P xs = xs"
  by (cases xs) auto

lemma trim_content: "trim c = c \<Longrightarrow> trim (c @ [CHR 0x0A]) = c"
proof (cases "c = []")
  case True
  then show ?thesis by (simp add: trim_def isSpace_def)
next
  case False
  assume t: "trim c = c"
  from trim_nonempty [OF t False] have h: "\<not> isSpace (hd c)" and l: "\<not> isSpace (last c)"
    by simp_all
  from False h have 1: "dropWhile isSpace (c @ [CHR 0x0A]) = c @ [CHR 0x0A]"
    by (cases c) simp_all
  from False l have "\<not> isSpace (hd (rev c))" by (simp add: hd_rev)
  then have 2: "dropWhile isSpace (rev c) = rev c" by (simp add: dropWhile_id)
  have "isSpace (CHR 0x0A)" by (simp add: isSpace_def)
  with 1 2 show ?thesis by (simp add: trim_def)
qed

lemma trim_path: "list_all isPathChar p \<Longrightarrow> trim p = p"
proof -
  assume a: "list_all isPathChar p"
  then have "\<forall>c \<in> set p. \<not> isSpace c"
    by (simp add: list_all_iff isPathChar_def)
  then have "\<forall>c \<in> set (rev p). \<not> isSpace c" by simp
  then have 2: "dropWhile isSpace (rev p) = rev p"
    by (cases "rev p") auto
  from \<open>\<forall>c \<in> set p. \<not> isSpace c\<close> have 1: "dropWhile isSpace p = p"
    by (cases p) auto
  from 1 2 show ?thesis by (simp add: trim_def)
qed

lemma matchHeader_serialized:
  assumes "validPath p"
  shows "matchHeader (''===FILE: '' @ p @ ''==='' @ [CHR 0x0A] @ rest) = Some (p, rest)"
proof -
  from assms obtain x xs where p: "p = x # xs" and x: "isPathChar x" and xs: "list_all isPathChar xs"
    by (cases p) (auto simp: validPath_def)
  have 1: "stripPrefix ''===FILE:'' (''===FILE: '' @ p @ ''==='' @ [CHR 0x0A] @ rest)
      = Some (CHR 0x20 # p @ ''==='' @ [CHR 0x0A] @ rest)"
    by (simp add: stripPrefix_def)
  from x have 2: "dropWhile isSpace (CHR 0x20 # p @ ''==='' @ [CHR 0x0A] @ rest)
      = p @ ''==='' @ [CHR 0x0A] @ rest"
    by (simp add: p isSpace_def isPathChar_def)
  have ne: "\<not> isPathChar (CHR ''='')" by (simp add: isPathChar_def)
  from x xs have all: "\<forall>c \<in> set p. isPathChar c" by (simp add: p list_all_iff)
  from all ne have 3: "takeWhile isPathChar (p @ ''==='' @ [CHR 0x0A] @ rest) = p"
    by simp
  from all ne have 4: "dropWhile isPathChar (p @ ''==='' @ [CHR 0x0A] @ rest) = ''==='' @ [CHR 0x0A] @ rest"
    by simp
  have 5: "dropWhile isSpace (''==='' @ [CHR 0x0A] @ rest) = ''==='' @ [CHR 0x0A] @ rest"
    by (simp add: isSpace_def)
  have 6: "stripPrefix (''==='' @ [CHR 0x0A]) (''==='' @ [CHR 0x0A] @ rest) = Some rest"
    by (simp add: stripPrefix_def)
  show ?thesis
    unfolding matchHeader_def 1 option.case Let_def 2 3 4 5 6
    by (simp add: p)
qed


lemma parseFrom_Nil [simp]: "parseFrom [] acc = acc"
  by (simp add: parseFrom.simps)

lemma matchFile_serialized:
  assumes "validPath p" "validContent c"
  shows "matchFile (serializeFile (p, c) @ rest) = Some (p, c @ [CHR 0x0A], CHR 0x0A # rest)"
proof -
  have s: "serializeFile (p, c) @ rest =
      ''===FILE: '' @ p @ ''==='' @ [CHR 0x0A] @ (c @ CHR 0x0A # END_FILE @ CHR 0x0A # rest)"
    by (simp add: serializeFile_def)
  from assms(2) have "findEnd (c @ CHR 0x0A # END_FILE @ CHR 0x0A # rest)
      = Some (c @ [CHR 0x0A], CHR 0x0A # rest)"
    by (simp add: validContent_def findEnd_content)
  with matchHeader_serialized [OF assms(1)] show ?thesis
    unfolding s matchFile_def by simp
qed

lemma parseFrom_serialized:
  assumes "validPath p" "validContent c"
  shows "parseFrom (serializeFile (p, c) @ rest) acc = parseFrom rest (AList.update p c acc)"
proof -
  have ne: "serializeFile (p, c) \<noteq> []"
    by (simp add: serializeFile_def)
  from assms have t: "trim p = p" "trim (c @ [CHR 0x0A]) = c" "p \<noteq> ''__proto__''"
    by (simp_all add: validPath_def validContent_def trim_path trim_content)
  have "parseFrom (serializeFile (p, c) @ rest) acc
      = parseFrom (CHR 0x0A # rest) (AList.update p c acc)"
    using ne t by (subst parseFrom.simps) (simp add: matchFile_serialized [OF assms] setProp_def)
  also have "matchFile (CHR 0x0A # rest) = None"
    by (simp add: matchFile_def matchHeader_def stripPrefix_def)
  then have "parseFrom (CHR 0x0A # rest) (AList.update p c acc) = parseFrom rest (AList.update p c acc)"
    by (subst parseFrom.simps) simp
  finally show ?thesis .
qed

lemma update_fresh: "k \<notin> fst ` set al \<Longrightarrow> AList.update k v al = al @ [(k, v)]"
  by (induction al) auto

lemma parseFrom_serializeFiles:
  assumes "distinct (map fst fs)"
    and "\<forall>e \<in> set fs. validPath (fst e) \<and> validContent (snd e)"
    and "fst ` set fs \<inter> fst ` set acc = {}"
  shows "parseFrom (serializeFiles fs) acc = acc @ fs"
  using assms
proof (induction fs arbitrary: acc)
  case Nil
  then show ?case by (simp add: serializeFiles_def)
next
  case (Cons e fs)
  obtain p c where e: "e = (p, c)" by (cases e)
  from Cons.prems e have v: "validPath p" "validContent c" by simp_all
  from Cons.prems e have fresh: "p \<notin> fst ` set acc" by auto
  then have u: "AList.update p c acc = acc @ [(p, c)]" by (rule update_fresh)
  from Cons.prems e have d: "distinct (map fst fs)" and
    rest: "\<forall>e \<in> set fs. validPath (fst e) \<and> validContent (snd e)" and
    disj: "fst ` set fs \<inter> fst ` set (acc @ [(p, c)]) = {}"
    by auto
  have "parseFrom (serializeFiles (e # fs)) acc = parseFrom (serializeFiles fs) (acc @ [(p, c)])"
    by (simp add: serializeFiles_def e parseFrom_serialized [OF v] u)
  also have "\<dots> = (acc @ [(p, c)]) @ fs"
    by (rule Cons.IH [OF d rest disj])
  finally show ?case by (simp add: e)
qed

text \<open>
  Claim C8, as amended. For a file map whose paths are not empty, free of white space and
  \<open>=\<close> and different from \<open>__proto__\<close>, and whose contents have no white space at either end
  and do not contain the end marker, parsing the serialized map gives the map back: the
  same keys, each with the same content.
\<close>

theorem parse_roundtrip:
  assumes "distinct (map fst fs)"
    and "\<forall>e \<in> set fs. validPath (fst e) \<and> validContent (snd e)"
  shows "parseMultiFileResponse (serializeFiles fs) = fs \<and>
         map_of (parseMultiFileResponse (serializeFiles fs)) = map_of fs \<and>
         fst ` set (parseMultiFileResponse (serializeFiles fs)) = fst ` set fs"
  using parseFrom_serializeFiles [OF assms, of "[]"]
  by (simp add: parseMultiFileResponse_def)

definition roundtrip_example :: files where
  "roundtrip_example =
     [(''backend/src/server.js'', ''module.exports = {};''),
      (''README.md'', ''# Shop'')]"

definition newline_example :: files where
  "newline_example = [(''backend/src/server.js'', ''const a = 1;'' @ [CHR 0x0A])]"

lemmas parser_defs = parseMultiFileResponse_def serializeFiles_def serializeFile_def
  parseFrom.simps matchFile_def matchHeader_def stripPrefix_def END_FILE_def isSpace_def
  isPathChar_def trim_def setProp_def Let_def

text \<open>
  Claim C8 as stated fails for a file whose content ends with a line break: the parser
  trims every content, so the line break is lost.
\<close>

theorem parse_roundtrip_counterexample:
  "parseMultiFileResponse (serializeFiles newline_example) = [(''backend/src/server.js'', ''const a = 1;'')] \<and>
   parseMultiFileResponse (serializeFiles newline_example) \<noteq> newline_example"
  by (simp add: newline_example_def parser_defs)

theorem parse_roundtrip_witness:
  "parseMultiFileResponse (serializeFiles roundtrip_example) = roundtrip_example"
proof -
  have d: "distinct (map fst roundtrip_example)"
    by (simp add: roundtrip_example_def)
  have v: "\<forall>e \<in> set roundtrip_example. validPath (fst e) \<and> validContent (snd e)"
    by (simp add: roundtrip_example_def validPath_def validContent_def parser_defs)
  from parse_roundtrip [OF d v] show ?thesis by simp
qed

section \<open>Validation and repair of generated files (ai-engine multiFileGenerator.js)\<close>

subsection \<open>JSON values and property access\<close>

text \<open>
  The values \<open>JSON.parse\<close> returns, and arrays that have been given named properties. The
  number of \<open>JNum\<close> is the parsed value; only whether it is zero matters below.
  \<open>JSON.parse\<close> and \<open>JSON.stringify\<close> themselves are inputs of the functions that call them:
  \<open>parse\<close> returns \<open>None\<close> where \<open>JSON.parse\<close> throws.
\<close>

datatype json =
    JNull
  | JBool bool
  | JNum rat
  | JStr string
  | JArr "json list" "(string \<times> json) list"
  | JObj "(string \<times> json) list"

text \<open>Truthiness of a value that may be \<open>undefined\<close> (\<open>None\<close>).\<close>

fun truthy :: "json option \<Rightarrow> bool" where
  "truthy None = False"
| "truthy (Some JNull) = False"
| "truthy (Some (JBool b)) = b"
| "truthy (Some (JNum r)) = (r \<noteq> 0)"
| "truthy (Some (JStr s)) = (s \<noteq> [])"
| "truthy (Some (JArr es ps)) = True"
| "truthy (Some (JObj ps)) = True"

datatype type_error = TypeError

text \<open>
  Reading and writing a named property in strict mode (the file is an ES module). The
  names used below are neither array indices nor \<open>length\<close> nor names found on a prototype,
  so a read finds an own property or \<open>undefined\<close>. Reading from \<open>null\<close> throws; writing to
  \<open>null\<close> or to a primitive value throws.
\<close>

fun getProp :: "json \<Rightarrow> string \<Rightarrow> type_error + json option" where
  "getProp JNull k = Inl TypeError"
| "getProp (JBool b) k = Inr None"
| "getProp (JNum r) k = Inr None"
| "getProp (JStr s) k = Inr None"
| "getProp (JArr es ps) k = Inr (map_of ps k)"
| "getProp (JObj ps) k = Inr (map_of ps k)"

fun putProp :: "json \<Rightarrow> string \<Rightarrow> json \<Rightarrow> type_error + json" where
  "putProp (JArr es ps) k v = Inr (JArr es (AList.update k v ps))"
| "putProp (JObj ps) k v = Inr (JObj (AList.update k v ps))"
| "putProp _ k v = Inl TypeError"

fun deleteProp :: "json \<Rightarrow> string \<Rightarrow> type_error + json" where
  "deleteProp (JArr es ps) k = Inr (JArr es (AList.delete k ps))"
| "deleteProp (JObj ps) k = Inr (JObj (AList.delete k ps))"
| "deleteProp JNull k = Inl TypeError"
| "deleteProp v k = Inr v"

subsection \<open>Repair of a package manifest\<close>

text \<open>
  The body of the \<open>try\<close> in \<open>fixBackendPackageJson\<close> and \<open>fixFrontendPackageJson\<close> is a
  sequence of statements of three shapes, each working on the parsed manifest and the list
  of fixes:
  \<^item> \<open>if (!pkg.k) { pkg.k = v; fixes.push(...) }\<close>;
  \<^item> \<open>if (!pkg.s.k) { pkg.s.k = v; fixes.push(...) }\<close>;
  \<^item> \<open>if (pkg.s.k) { delete pkg.s.k; fixes.push(...) }\<close>.
  A statement that throws leaves the fixes pushed so far, which the \<open>catch\<close> returns.
\<close>

datatype fix_step =
    EnsureTop string json "string list"
  | EnsureSub string string json "string list"
  | RemoveSub string string "string list"

fun applyStep :: "fix_step \<Rightarrow> json \<times> string list \<Rightarrow> string list + json \<times> string list" where
  "applyStep (EnsureTop k v msgs) (pkg, fixes) =
     (case getProp pkg k of
        Inl e \<Rightarrow> Inl fixes
      | Inr cur \<Rightarrow>
          if truthy cur then Inr (pkg, fixes)
          else (case putProp pkg k v of
                  Inl e \<Rightarrow> Inl fixes
                | Inr pkg' \<Rightarrow> Inr (pkg', fixes @ msgs)))"
| "applyStep (EnsureSub s k v msgs) (pkg, fixes) =
     (case getProp pkg s of
        Inl e \<Rightarrow> Inl fixes
      | Inr None \<Rightarrow> Inl fixes
      | Inr (Some sec) \<Rightarrow>
          (case getProp sec k of
             Inl e \<Rightarrow> Inl fixes
           | Inr cur \<Rightarrow>
               if truthy cur then Inr (pkg, fixes)
               else (case putProp sec k v of
                       Inl e \<Rightarrow> Inl fixes
                     | Inr sec' \<Rightarrow>
                         (case putProp pkg s sec' of
                            Inl e \<Rightarrow> Inl fixes
                          | Inr pkg' \<Rightarrow> Inr (pkg', fixes @ msgs)))))"
| "applyStep (RemoveSub s k msgs) (pkg, fixes) =
     (case getProp pkg s of
        Inl e \<Rightarrow> Inl fixes
      | Inr None \<Rightarrow> Inl fixes
      | Inr (Some sec) \<Rightarrow>
          (case getProp sec k of
             Inl e \<Rightarrow> Inl fixes
           | Inr cur \<Rightarrow>
               if \<not> truthy cur then Inr (pkg, fixes)
               else (case deleteProp sec k of
                       Inl e \<Rightarrow> Inl fixes
                     | Inr sec' \<Rightarrow>
                         (case putProp pkg s sec' of
                            Inl e \<Rightarrow> Inl fixes
                          | Inr pkg' \<Rightarrow> Inr (pkg', fixes @ msgs)))))"

fun runSteps :: "fix_step list \<Rightarrow> json \<times> string list \<Rightarrow> string list + json \<times> string list" where
  "runSteps [] st = Inr st"
| "runSteps (x # xs) st =
     (case applyStep x st of Inl fixes \<Rightarrow> Inl fixes | Inr st' \<Rightarrow> runSteps xs st')"

text \<open>\<open>toLowerCase\<close> on code units below 256, and \<open>replace(/\s+/g, "-")\<close>.\<close>

definition toLowerChar :: "char \<Rightarrow> char" where
  "toLowerChar c =
     (let n = (of_char c :: nat)
      in if (65 \<le> n \<and> n \<le> 90) \<or> (192 \<le> n \<and> n \<le> 222 \<and> n \<noteq> 215)
         then char_of (n + 32) else c)"

definition toLowerCase :: "string \<Rightarrow> string" where
  "toLowerCase s = map toLowerChar s"

function dashSpaces :: "string \<Rightarrow> string" where
  "dashSpaces [] = []"
| "dashSpaces (c # cs) =
     (if isSpace c then CHR ''-'' # dashSpaces (dropWhile isSpace cs)
      else c # dashSpaces cs)"
  by pat_completeness auto
termination
  by (relation "measure length") (auto intro: le_imp_less_Suc length_dropWhile_le)

definition REQUIRED_BACKEND_dependencies :: "(string \<times> string) list" where
  "REQUIRED_BACKEND_dependencies =
     [(''bcryptjs'', ''^2.4.3''), (''cors'', ''^2.8.5''), (''dotenv'', ''^16.3.1''),
      (''express'', ''^4.18.2''), (''express-rate-limit'', ''^7.1.5''),
      (''express-validator'', ''^7.0.1''), (''helmet'', ''^7.1.0''),
      (''jsonwebtoken'', ''^9.0.2''), (''pg'', ''^8.11.3''), (''sequelize'', ''^6.35.2''),
      (''uuid'', ''^9.0.1''), (''winston'', ''^3.11.0'')]"

definition REQUIRED_BACKEND_devDependencies :: "(string \<times> string) list" where
  "REQUIRED_BACKEND_devDependencies = [(''jest'', ''^29.7.0''), (''supertest'', ''^6.3.3'')]"

definition REQUIRED_FRONTEND_dependencies :: "(string \<times> string) list" where
  "REQUIRED_FRONTEND_dependencies =
     [(''next'', ''14.0.4''), (''react'', ''^18.2.0''), (''react-dom'', ''^18.2.0''),
      (''axios'', ''^1.6.2''), (''tailwindcss'', ''^3.4.0''), (''autoprefixer'', ''^10.4.16''),
      (''postcss'', ''^8.4.32'')]"

definition REQUIRED_FRONTEND_devDependencies :: "(string \<times> string) list" where
  "REQUIRED_FRONTEND_devDependencies =
     [(''@types/node'', ''^20.10.5''), (''@types/react'', ''^18.2.45''),
      (''@types/react-dom'', ''^18.2.18''), (''typescript'', ''^5.3.3''),
      (''eslint'', ''^8.56.0''), (''eslint-config-next'', ''14.0.4'')]"

text \<open>The loops over the required packages, one statement per package.\<close>

definition requireAll :: "string \<Rightarrow> string \<Rightarrow> (string \<times> string) list \<Rightarrow> fix_step list" where
  "requireAll section label deps =
     map (\<lambda>(dep, version). EnsureSub section dep (JStr version) [label @ dep]) deps"

definition backendSteps :: "string \<Rightarrow> fix_step list" where
  "backendSteps name =
     [EnsureTop ''name'' (JStr (dashSpaces (toLowerCase name) @ ''-backend''))
        [''Added package name''],
      EnsureTop ''version'' (JStr ''1.0.0'') [],
      EnsureTop ''main'' (JStr ''src/server.js'') [''Added main entry point''],
      EnsureTop ''scripts'' (JObj []) [],
      EnsureSub ''scripts'' ''start'' (JStr ''node src/server.js'') [''Added start script''],
      EnsureSub ''scripts'' ''dev'' (JStr ''node --watch src/server.js'') [''Added dev script''],
      EnsureTop ''dependencies'' (JObj []) []]
     @ requireAll ''dependencies'' ''Added missing dependency: '' REQUIRED_BACKEND_dependencies
     @ [RemoveSub ''dependencies'' ''bcrypt'' [''Removed bcrypt (using bcryptjs instead)''],
        EnsureTop ''devDependencies'' (JObj []) []]
     @ requireAll ''devDependencies'' ''Added missing devDependency: ''
         REQUIRED_BACKEND_devDependencies"

definition frontendSteps :: "string \<Rightarrow> fix_step list" where
  "frontendSteps name =
     [EnsureTop ''name'' (JStr (dashSpaces (toLowerCase name) @ ''-frontend''))
        [''Added package name''],
      EnsureTop ''scripts'' (JObj []) [],
      EnsureSub ''scripts'' ''dev'' (JStr ''next dev'') [''Added dev script''],
      EnsureSub ''scripts'' ''build'' (JStr ''next build'') [''Added build script''],
      EnsureSub ''scripts'' ''start'' (JStr ''next start'') [''Added start script''],
      EnsureTop ''dependencies'' (JObj []) []]
     @ requireAll ''dependencies'' ''Added missing dependency: '' REQUIRED_FRONTEND_dependencies
     @ [EnsureTop ''devDependencies'' (JObj []) []]
     @ requireAll ''devDependencies'' ''Added missing devDependency: ''
         REQUIRED_FRONTEND_devDependencies"

text \<open>
  \<open>fixBackendPackageJson\<close> and \<open>fixFrontendPackageJson\<close>: parse, run the statements,
  serialize. When parsing or a statement throws, the content is returned as it came, with
  the fixes pushed so far.
\<close>

definition fixPackageJson ::
  "(string \<Rightarrow> json option) \<Rightarrow> (json \<Rightarrow> string) \<Rightarrow> fix_step list \<Rightarrow> string
     \<Rightarrow> string \<times> string list" where
  "fixPackageJson parse stringify steps content =
     (case parse content of
        None \<Rightarrow> (content, [])
      | Some pkg \<Rightarrow>
          (case runSteps steps (pkg, []) of
             Inl fixes \<Rightarrow> (content, fixes)
           | Inr (pkg', fixes) \<Rightarrow> (stringify pkg', fixes)))"

definition fixBackendPackageJson ::
  "(string \<Rightarrow> json option) \<Rightarrow> (json \<Rightarrow> string) \<Rightarrow> string \<Rightarrow> string \<Rightarrow> string \<times> string list" where
  "fixBackendPackageJson parse stringify content name =
     fixPackageJson parse stringify (backendSteps name) content"

definition fixFrontendPackageJson ::
  "(string \<Rightarrow> json option) \<Rightarrow> (json \<Rightarrow> string) \<Rightarrow> string \<Rightarrow> string \<Rightarrow> string \<times> string list" where
  "fixFrontendPackageJson parse stringify content name =
     fixPackageJson parse stringify (frontendSteps name) content"

subsection \<open>The deprecated package in source files\<close>

definition isQuote :: "char \<Rightarrow> bool" where
  "isQuote c \<longleftrightarrow> c = CHR 0x27 \<or> c = CHR 0x22"

text \<open>\<open>content.includes(pattern)\<close>.\<close>

fun includesStr :: "string \<Rightarrow> string \<Rightarrow> bool" where
  "includesStr [] pat = (pat = [])"
| "includesStr (c # cs) pat = (stripPrefix pat (c # cs) \<noteq> None \<or> includesStr cs pat)"

text \<open>
  The regular expression \<open>/require\(['"]bcrypt['"]\)/g\<close> at the start of a string; the result
  is the rest of the string after the match.
\<close>

definition matchBcrypt :: "string \<Rightarrow> string option" where
  "matchBcrypt s =
     (case stripPrefix ''require('' s of
        Some (q1 # s1) \<Rightarrow>
          if isQuote q1
          then (case stripPrefix ''bcrypt'' s1 of
                  Some (q2 # s2) \<Rightarrow> if isQuote q2 then stripPrefix '')'' s2 else None
                | _ \<Rightarrow> None)
          else None
      | _ \<Rightarrow> None)"

definition BCRYPTJS :: string where
  "BCRYPTJS = ''require('' @ [CHR 0x27] @ ''bcryptjs'' @ [CHR 0x27] @ '')''"

lemma matchBcrypt_length: "matchBcrypt s = Some rest \<Longrightarrow> length rest < length s"
  by (auto simp: matchBcrypt_def stripPrefix_Some split: option.splits list.splits if_splits)

text \<open>\<open>content.replace(/require\(['"]bcrypt['"]\)/g, "require('bcryptjs')")\<close>.\<close>

function replaceBcrypt :: "string \<Rightarrow> string" where
  "replaceBcrypt s =
     (if s = [] then []
      else (case matchBcrypt s of
              Some rest \<Rightarrow> BCRYPTJS @ replaceBcrypt rest
            | None \<Rightarrow> hd s # replaceBcrypt (tl s)))"
  by pat_completeness auto
termination
  by (relation "measure length") (auto dest: matchBcrypt_length)

declare replaceBcrypt.simps [simp del]

definition REQUIRE_BCRYPT_SINGLE :: string where
  "REQUIRE_BCRYPT_SINGLE = ''require('' @ [CHR 0x27] @ ''bcrypt'' @ [CHR 0x27] @ '')''"

definition REQUIRE_BCRYPT_DOUBLE :: string where
  "REQUIRE_BCRYPT_DOUBLE = ''require('' @ [CHR 0x22] @ ''bcrypt'' @ [CHR 0x22] @ '')''"

definition startsWith :: "string \<Rightarrow> string \<Rightarrow> bool" where
  "startsWith s p \<longleftrightarrow> take (length p) s = p"

definition endsWith :: "string \<Rightarrow> string \<Rightarrow> bool" where
  "endsWith s p \<longleftrightarrow> length p \<le> length s \<and> drop (length s - length p) s = p"

text \<open>One round of the loop over \<open>Object.entries(fixedFiles)\<close> of step 2.\<close>

definition needsBcryptFix :: "string \<Rightarrow> string \<Rightarrow> bool" where
  "needsBcryptFix filePath content \<longleftrightarrow>
     startsWith filePath ''backend/'' \<and> endsWith filePath ''.js'' \<and>
     (includesStr content REQUIRE_BCRYPT_SINGLE \<or> includesStr content REQUIRE_BCRYPT_DOUBLE)"

definition fixBcryptEntry :: "string \<times> string \<Rightarrow> string \<times> string" where
  "fixBcryptEntry e =
     (if needsBcryptFix (fst e) (snd e) then (fst e, replaceBcrypt (snd e)) else e)"

definition bcryptFixes :: "files \<Rightarrow> string list" where
  "bcryptFixes fs =
     map (\<lambda>e. ''Fixed bcrypt -> bcryptjs in '' @ fst e)
       (filter (\<lambda>e. needsBcryptFix (fst e) (snd e)) fs)"

subsection \<open>Relative imports\<close>

text \<open>
  \<open>path.dirname\<close>, \<open>path.posix.join\<close> and \<open>path.posix.normalize\<close> of Node.js on a POSIX host,
  for the arguments \<open>resolveImportPath\<close> passes: both arguments of \<open>join\<close> are non-empty.
\<close>

definition stripSlashes :: "string \<Rightarrow> string" where
  "stripSlashes s = rev (dropWhile (\<lambda>c. c = CHR ''/'') (rev s))"

text \<open>
  \<open>dirname\<close> looks for the last slash that is followed by a character other than a slash,
  not counting position 0, and returns what stands before it.
\<close>

definition dirname :: "string \<Rightarrow> string" where
  "dirname p =
     (if p = [] then ''.''
      else (let body = stripSlashes (tl p);
                keep = rev (dropWhile (\<lambda>c. c \<noteq> CHR ''/'') (rev body))
            in if keep = [] then (if hd p = CHR ''/'' then ''/'' else ''.'')
               else if hd p = CHR ''/'' \<and> length keep = 1 then ''//''
               else hd p # butlast keep))"

fun splitSlash :: "string \<Rightarrow> string list" where
  "splitSlash [] = [[]]"
| "splitSlash (c # cs) =
     (if c = CHR ''/'' then [] # splitSlash cs
      else (case splitSlash cs of seg # segs \<Rightarrow> (c # seg) # segs | [] \<Rightarrow> [[c]]))"

text \<open>
  \<open>normalizeString\<close>: the segments kept so far are held in reverse. Empty segments and
  \<open>.\<close> are dropped; \<open>..\<close> removes the last kept segment unless there is none or it is
  \<open>..\<close> itself, in which case \<open>..\<close> is kept when going above the root is allowed.
\<close>

fun normSegs :: "bool \<Rightarrow> string list \<Rightarrow> string list \<Rightarrow> string list" where
  "normSegs up kept [] = rev kept"
| "normSegs up kept (seg # segs) =
     (if seg = [] \<or> seg = ''.'' then normSegs up kept segs
      else if seg = ''..''
        then (case kept of
                k # ks \<Rightarrow> if k = ''..'' then normSegs up (''..'' # kept) segs
                          else normSegs up ks segs
              | [] \<Rightarrow> if up then normSegs up [''..''] segs else normSegs up [] segs)
      else normSegs up (seg # kept) segs)"

fun joinSlash :: "string list \<Rightarrow> string" where
  "joinSlash [] = []"
| "joinSlash [seg] = seg"
| "joinSlash (seg # segs) = seg @ ''/'' @ joinSlash segs"

definition posixNormalize :: "string \<Rightarrow> string" where
  "posixNormalize p =
     (if p = [] then ''.''
      else (let isAbsolute = (hd p = CHR ''/'');
                trailingSeparator = (last p = CHR ''/'');
                res = joinSlash (normSegs (\<not> isAbsolute) [] (splitSlash p))
            in if res = [] then (if isAbsolute then ''/'' else if trailingSeparator then ''./'' else ''.'')
               else (if isAbsolute then ''/'' else []) @ res @ (if trailingSeparator then ''/'' else [])))"

definition posixJoin :: "string \<Rightarrow> string \<Rightarrow> string" where
  "posixJoin a b = posixNormalize (a @ ''/'' @ b)"

definition resolveImportPath :: "string \<Rightarrow> string \<Rightarrow> string" where
  "resolveImportPath fromFile importPath =
     posixNormalize (posixJoin (dirname fromFile) importPath)"

text \<open>
  The regular expression \<open>/require\(['"](\.\.?\/[^'"]+)['"]\)/g\<close> at the start of a string:
  the import path and the rest after the match. As in the file marker expression, no
  greedy part can give characters back usefully.
\<close>

definition matchRequire :: "string \<Rightarrow> (string \<times> string) option" where
  "matchRequire s =
     (case stripPrefix ''require('' s of
        None \<Rightarrow> None
      | Some s0 \<Rightarrow>
          if s0 = [] \<or> \<not> isQuote (hd s0) then None
          else (case stripPrefix ''.'' (tl s0) of
                  None \<Rightarrow> None
                | Some s1 \<Rightarrow>
                    (let dots = (case stripPrefix ''.'' s1 of None \<Rightarrow> ''.'' | Some t \<Rightarrow> ''..'');
                         s2 = (case stripPrefix ''.'' s1 of None \<Rightarrow> s1 | Some t \<Rightarrow> t)
                     in (case stripPrefix ''/'' s2 of
                           None \<Rightarrow> None
                         | Some s3 \<Rightarrow>
                             (let name = takeWhile (\<lambda>c. \<not> isQuote c) s3;
                                  s4 = dropWhile (\<lambda>c. \<not> isQuote c) s3
                              in if name = [] \<or> s4 = [] then None
                                 else (case stripPrefix '')'' (tl s4) of
                                         None \<Rightarrow> None
                                       | Some rest \<Rightarrow> Some (dots @ ''/'' @ name, rest)))))))"

lemma matchRequire_length: "matchRequire s = Some (imp, rest) \<Longrightarrow> length rest < length s"
proof -
  assume m: "matchRequire s = Some (imp, rest)"
  then obtain s0 where s0: "s = ''require('' @ s0"
    by (auto simp only: matchRequire_def stripPrefix_Some split: option.splits)
  with m have m0: "stripPrefix ''require('' s = Some s0"
    by (simp only: stripPrefix_Some)
  from m m0 obtain s1 where s1: "tl s0 = ''.'' @ s1"
    by (auto simp only: matchRequire_def stripPrefix_Some option.case split: option.splits if_splits)
  then have m1: "stripPrefix ''.'' (tl s0) = Some s1"
    by (simp only: stripPrefix_Some)
  let ?s2 = "case stripPrefix ''.'' s1 of None \<Rightarrow> s1 | Some t \<Rightarrow> t"
  have l2: "length ?s2 \<le> length s1"
    by (auto simp: stripPrefix_Some split: option.splits)
  from m m0 m1 obtain s3 where s3: "?s2 = ''/'' @ s3"
    by (auto simp only: matchRequire_def stripPrefix_Some option.case Let_def
        split: option.splits if_splits)
  then have m3: "stripPrefix ''/'' ?s2 = Some s3"
    by (simp only: stripPrefix_Some)
  let ?s4 = "dropWhile (\<lambda>c. \<not> isQuote c) s3"
  from m m0 m1 m3 have "tl ?s4 = '')'' @ rest"
    by (auto simp only: matchRequire_def stripPrefix_Some option.case Let_def
        split: option.splits if_splits)
  then have "length rest < length (tl ?s4) + 1" by simp
  also have "\<dots> \<le> length ?s4 + 1" by simp
  also have "\<dots> \<le> length s3 + 1" by (simp add: length_dropWhile_le)
  also have "\<dots> \<le> length ?s2" by (simp add: s3)
  also have "\<dots> \<le> length s1" by (rule l2)
  also have "\<dots> \<le> length (tl s0)" by (simp add: s1)
  also have "\<dots> \<le> length s0" by simp
  also have "\<dots> < length s" by (simp add: s0)
  finally show ?thesis by simp
qed

text \<open>The \<open>while ((match = requireRegex.exec(content)) !== null)\<close> loop: all import paths.\<close>

function findRequires :: "string \<Rightarrow> string list" where
  "findRequires s =
     (if s = [] then []
      else (case matchRequire s of
              Some (importPath, rest) \<Rightarrow> importPath # findRequires rest
            | None \<Rightarrow> findRequires (tl s)))"
  by pat_completeness auto
termination
  by (relation "measure length") (auto dest: matchRequire_length)

declare findRequires.simps [simp del]

definition importWarning :: "string list \<Rightarrow> string \<Rightarrow> string \<Rightarrow> string list" where
  "importWarning existingFiles filePath importPath =
     (let resolvedPath = resolveImportPath filePath importPath;
          possiblePaths = [resolvedPath, resolvedPath @ ''.js'', resolvedPath @ ''/index.js'']
      in if list_ex (\<lambda>p. p \<in> set existingFiles) possiblePaths then []
         else [''Warning: '' @ filePath @ '' imports '' @ [CHR 0x27] @ importPath @ [CHR 0x27]
               @ '' but file not found at '' @ resolvedPath])"

definition validateAndFixImports :: "files \<Rightarrow> string list" where
  "validateAndFixImports fs =
     concat (map (\<lambda>(filePath, content).
        if \<not> endsWith filePath ''.js'' \<and> \<not> endsWith filePath ''.ts'' then []
        else concat (map (importWarning (map fst fs) filePath) (findRequires content))) fs)"

subsection \<open>The whole pass\<close>

text \<open>
  Step 1 of \<open>validateAndFixFiles\<close> for one manifest: it is repaired when the map has the key
  with a non-empty content.
\<close>

definition fixManifest ::
  "string \<Rightarrow> (string \<Rightarrow> string \<times> string list) \<Rightarrow> files \<times> string list \<Rightarrow> files \<times> string list" where
  "fixManifest key fixer st =
     (case st of (fixedFiles, fixes) \<Rightarrow>
        (case map_of fixedFiles key of
           None \<Rightarrow> (fixedFiles, fixes)
         | Some content \<Rightarrow>
             if content = [] then (fixedFiles, fixes)
             else (case fixer content of
                     (content', fixes') \<Rightarrow> (setProp fixedFiles key content', fixes @ fixes'))))"

definition validateAndFixFiles ::
  "(string \<Rightarrow> json option) \<Rightarrow> (json \<Rightarrow> string) \<Rightarrow> files \<Rightarrow> string \<Rightarrow> files \<times> string list" where
  "validateAndFixFiles parse stringify fs name =
     (case fixManifest ''frontend/package.json''
             (\<lambda>c. fixFrontendPackageJson parse stringify c name)
             (fixManifest ''backend/package.json''
                (\<lambda>c. fixBackendPackageJson parse stringify c name) (fs, [])) of
        (fixed1, fixes1) \<Rightarrow>
          (let fixed2 = map fixBcryptEntry fixed1;
               fixes2 = fixes1 @ bcryptFixes fixed1;
               fixes3 = fixes2 @ validateAndFixImports fixed2;
               fixed4 = AList.delete ''frontend/.env.local''
                          (AList.delete ''backend/.env.example''
                             (AList.delete ''backend/.env'' fixed2))
           in (fixed4, fixes3)))"

subsection \<open>A repaired manifest needs no further repair\<close>

text \<open>A statement is settled on a manifest when running it changes nothing.\<close>

fun settled :: "fix_step \<Rightarrow> json \<Rightarrow> bool" where
  "settled (EnsureTop k v msgs) pkg =
     (case getProp pkg k of Inl e \<Rightarrow> False | Inr cur \<Rightarrow> truthy cur)"
| "settled (EnsureSub s k v msgs) pkg =
     (case getProp pkg s of
        Inr (Some sec) \<Rightarrow> (case getProp sec k of Inl e \<Rightarrow> False | Inr cur \<Rightarrow> truthy cur)
      | _ \<Rightarrow> False)"
| "settled (RemoveSub s k msgs) pkg =
     (case getProp pkg s of
        Inr (Some sec) \<Rightarrow> (case getProp sec k of Inl e \<Rightarrow> False | Inr cur \<Rightarrow> \<not> truthy cur)
      | _ \<Rightarrow> False)"

text \<open>The value a statement writes is truthy.\<close>

fun wfStep :: "fix_step \<Rightarrow> bool" where
  "wfStep (EnsureTop k v msgs) = truthy (Some v)"
| "wfStep (EnsureSub s k v msgs) = truthy (Some v)"
| "wfStep (RemoveSub s k msgs) = True"

text \<open>\<open>compat a b\<close>: running \<open>b\<close> later does not undo \<open>a\<close>.\<close>

fun compat :: "fix_step \<Rightarrow> fix_step \<Rightarrow> bool" where
  "compat (EnsureSub s k v msgs) (RemoveSub s' k' msgs') = (s \<noteq> s' \<or> k \<noteq> k')"
| "compat (RemoveSub s k msgs) (EnsureSub s' k' v msgs') = (s \<noteq> s' \<or> k \<noteq> k')"
| "compat (RemoveSub s k msgs) (EnsureTop k' v msgs') = (s \<noteq> k')"
| "compat a b = True"

fun compatList :: "fix_step list \<Rightarrow> bool" where
  "compatList [] = True"
| "compatList (x # xs) = (list_all (compat x) xs \<and> compatList xs)"

lemma getProp_putProp:
  "putProp pkg k v = Inr pkg' \<Longrightarrow> getProp pkg' k' = (if k' = k then Inr (Some v) else getProp pkg k')"
  by (cases pkg) (auto simp: update_conv')

lemma truthy_putProp: "putProp pkg k v = Inr pkg' \<Longrightarrow> truthy (Some pkg')"
  by (cases pkg) auto

lemma settled_noop: "settled st pkg \<Longrightarrow> applyStep st (pkg, fixes) = Inr (pkg, fixes)"
  by (cases st) (auto split: sum.splits option.splits)

lemma applyStep_settles:
  "wfStep st \<Longrightarrow> applyStep st (pkg, fixes) = Inr (pkg', fixes') \<Longrightarrow> settled st pkg'"
proof (cases st)
  case (EnsureTop k v msgs)
  assume "wfStep st" "applyStep st (pkg, fixes) = Inr (pkg', fixes')"
  with EnsureTop show ?thesis
    by (auto split: sum.splits if_splits simp: getProp_putProp)
next
  case (EnsureSub s k v msgs)
  assume "wfStep st" "applyStep st (pkg, fixes) = Inr (pkg', fixes')"
  with EnsureSub show ?thesis
    by (auto split: sum.splits option.splits if_splits simp: getProp_putProp)
next
  case (RemoveSub s k msgs)
  assume a: "applyStep st (pkg, fixes) = Inr (pkg', fixes')"
  show ?thesis
  proof (cases pkg)
    case JNull with a RemoveSub show ?thesis by simp
  next
    case (JBool b) with a RemoveSub show ?thesis by simp
  next
    case (JNum r) with a RemoveSub show ?thesis by simp
  next
    case (JStr x) with a RemoveSub show ?thesis by simp
  next
    case (JArr es ps)
    with a RemoveSub show ?thesis
      by (cases "map_of ps s"; cases "the (map_of ps s)")
         (auto split: sum.splits option.splits if_splits simp: update_conv' delete_conv')
  next
    case (JObj ps)
    with a RemoveSub show ?thesis
      by (cases "map_of ps s"; cases "the (map_of ps s)")
         (auto split: sum.splits option.splits if_splits simp: update_conv' delete_conv')
  qed
qed


text \<open>The value of a property, \<open>None\<close> when it is absent or cannot be read.\<close>

definition propOf :: "json \<Rightarrow> string \<Rightarrow> json option" where
  "propOf pkg k = (case getProp pkg k of Inl e \<Rightarrow> None | Inr cur \<Rightarrow> cur)"

lemma settled_EnsureTop: "settled (EnsureTop k v msgs) pkg \<longleftrightarrow> truthy (propOf pkg k)"
  by (cases pkg) (auto simp: propOf_def)

lemma settled_EnsureSub:
  "settled (EnsureSub s k v msgs) pkg \<longleftrightarrow> (\<exists>sec. propOf pkg s = Some sec \<and> truthy (propOf sec k))"
proof (cases "getProp pkg s")
  case (Inl e)
  then show ?thesis by (simp add: propOf_def)
next
  case (Inr so)
  show ?thesis
  proof (cases so)
    case None
    with Inr show ?thesis by (simp add: propOf_def)
  next
    case (Some sec)
    with Inr show ?thesis by (cases sec) (auto simp: propOf_def)
  qed
qed

lemma settled_RemoveSub:
  "settled (RemoveSub s k msgs) pkg \<longleftrightarrow>
     (\<exists>sec. propOf pkg s = Some sec \<and> sec \<noteq> JNull \<and> \<not> truthy (propOf sec k))"
proof (cases "getProp pkg s")
  case (Inl e)
  then show ?thesis by (simp add: propOf_def)
next
  case (Inr so)
  show ?thesis
  proof (cases so)
    case None
    with Inr show ?thesis by (simp add: propOf_def)
  next
    case (Some sec)
    with Inr show ?thesis by (cases sec) (auto simp: propOf_def)
  qed
qed

declare settled.simps [simp del]

lemma propOf_putProp:
  "putProp pkg k v = Inr pkg' \<Longrightarrow> propOf pkg' k' = (if k' = k then Some v else propOf pkg k')"
  by (simp add: propOf_def getProp_putProp)

lemma putProp_not_null: "putProp pkg k v = Inr pkg' \<Longrightarrow> pkg' \<noteq> JNull"
  by (cases pkg) auto

lemma propOf_deleteProp:
  "deleteProp sec k = Inr sec' \<Longrightarrow> truthy (propOf sec k) \<Longrightarrow>
   propOf sec' k' = (if k' = k then None else propOf sec k') \<and> truthy (Some sec')"
  by (cases sec) (auto simp: propOf_def delete_conv')

text \<open>What a statement that succeeds does to the properties of the manifest.\<close>

lemma applyStep_EnsureTop:
  assumes "applyStep (EnsureTop k1 v msgs) (pkg, fixes) = Inr (pkg', fixes')"
  shows "pkg' = pkg \<or>
         (\<not> truthy (propOf pkg k1) \<and> (\<forall>k. propOf pkg' k = (if k = k1 then Some v else propOf pkg k)))"
  using assms
  by (auto split: sum.splits if_splits simp: propOf_putProp) (simp_all add: propOf_def)

lemma applyStep_EnsureSub:
  assumes "applyStep (EnsureSub s1 k1 v msgs) (pkg, fixes) = Inr (pkg', fixes')"
  shows "pkg' = pkg \<or>
         (\<exists>sec sec'. propOf pkg s1 = Some sec \<and> \<not> truthy (propOf sec k1) \<and> truthy (Some sec') \<and>
            (\<forall>k. propOf pkg' k = (if k = s1 then Some sec' else propOf pkg k)) \<and>
            (\<forall>k. propOf sec' k = (if k = k1 then Some v else propOf sec k)))"
proof -
  from assms obtain sec where sec: "getProp pkg s1 = Inr (Some sec)"
    by (auto split: sum.splits option.splits)
  from assms sec obtain cur where cur: "getProp sec k1 = Inr cur"
    by (auto split: sum.splits)
  show ?thesis
  proof (cases "truthy cur")
    case True
    with assms sec cur show ?thesis by simp
  next
    case False
    with assms sec cur obtain sec' where a: "putProp sec k1 v = Inr sec'" and
        b: "putProp pkg s1 sec' = Inr pkg'"
      by (auto split: sum.splits)
    from sec have 1: "propOf pkg s1 = Some sec" by (simp add: propOf_def)
    from cur False have 2: "\<not> truthy (propOf sec k1)" by (simp add: propOf_def)
    from a have 3: "truthy (Some sec')" by (rule truthy_putProp)
    from 1 2 3 propOf_putProp [OF a] propOf_putProp [OF b] show ?thesis by auto
  qed
qed

lemma applyStep_RemoveSub:
  assumes "applyStep (RemoveSub s1 k1 msgs) (pkg, fixes) = Inr (pkg', fixes')"
  shows "pkg' = pkg \<or>
         (\<exists>sec sec'. propOf pkg s1 = Some sec \<and> truthy (Some sec') \<and>
            (\<forall>k. propOf pkg' k = (if k = s1 then Some sec' else propOf pkg k)) \<and>
            (\<forall>k. propOf sec' k = (if k = k1 then None else propOf sec k)))"
proof -
  from assms obtain sec where sec: "getProp pkg s1 = Inr (Some sec)"
    by (auto split: sum.splits option.splits)
  from assms sec obtain cur where cur: "getProp sec k1 = Inr cur"
    by (auto split: sum.splits)
  show ?thesis
  proof (cases "truthy cur")
    case False
    with assms sec cur show ?thesis by simp
  next
    case True
    with assms sec cur obtain sec' where a: "deleteProp sec k1 = Inr sec'" and
        b: "putProp pkg s1 sec' = Inr pkg'"
      by (auto split: sum.splits)
    from sec have 1: "propOf pkg s1 = Some sec" by (simp add: propOf_def)
    from cur True have 2: "truthy (propOf sec k1)" by (simp add: propOf_def)
    from 1 propOf_deleteProp [OF a 2] propOf_putProp [OF b] show ?thesis by auto
  qed
qed

lemma truthy_prop_not_null: "truthy (propOf sec k) \<Longrightarrow> sec \<noteq> JNull \<and> truthy (Some sec)"
  by (cases sec) (auto simp: propOf_def)

lemma applyStep_keeps:
  assumes "settled a pkg" "compat a b" "applyStep b (pkg, fixes) = Inr (pkg', fixes')"
  shows "settled a pkg'"
proof (cases b)
  case (EnsureTop k1 v1 m1)
  note e = applyStep_EnsureTop [OF assms(3) [unfolded EnsureTop]]
  show ?thesis
  proof (cases a)
    case (EnsureTop k v msgs)
    with assms(1) e show ?thesis by (auto simp: settled_EnsureTop)
  next
    case (EnsureSub s k v msgs)
    with assms(1) obtain sec where sec: "propOf pkg s = Some sec" "truthy (propOf sec k)"
      by (auto simp: settled_EnsureSub)
    then have "truthy (propOf pkg s)" by (simp add: truthy_prop_not_null)
    with e sec have "propOf pkg' s = Some sec" by auto
    with sec EnsureSub show ?thesis by (auto simp: settled_EnsureSub)
  next
    case (RemoveSub s k msgs)
    with assms(1,2) e \<open>b = EnsureTop k1 v1 m1\<close> show ?thesis
      by (auto simp: settled_RemoveSub)
  qed
next
  case (EnsureSub s1 k1 v1 m1)
  note e = applyStep_EnsureSub [OF assms(3) [unfolded EnsureSub]]
  show ?thesis
  proof (cases a)
    case (EnsureTop k v msgs)
    with assms(1) e show ?thesis
      by (cases "k = s1") (auto simp: settled_EnsureTop dest: truthy_putProp)
  next
    case (EnsureSub s k v msgs)
    with assms(1) e show ?thesis
      by (cases "s = s1"; cases "k = k1") (auto simp: settled_EnsureSub)
  next
    case (RemoveSub s k msgs)
    with assms(1,2) e \<open>b = EnsureSub s1 k1 v1 m1\<close> show ?thesis
      by (cases "s = s1"; cases "k = k1") (auto simp: settled_RemoveSub)
  qed
next
  case (RemoveSub s1 k1 m1)
  note e = applyStep_RemoveSub [OF assms(3) [unfolded RemoveSub]]
  show ?thesis
  proof (cases a)
    case (EnsureTop k v msgs)
    with assms(1) e show ?thesis
      by (cases "k = s1") (auto simp: settled_EnsureTop)
  next
    case (EnsureSub s k v msgs)
    with assms(1,2) e \<open>b = RemoveSub s1 k1 m1\<close> show ?thesis
      by (cases "s = s1"; cases "k = k1") (auto simp: settled_EnsureSub)
  next
    case (RemoveSub s k msgs)
    with assms(1) e show ?thesis
      by (cases "s = s1"; cases "k = k1") (auto simp: settled_RemoveSub)
  qed
qed


lemma runSteps_keeps:
  "settled a pkg \<Longrightarrow> list_all (compat a) xs \<Longrightarrow> runSteps xs (pkg, fx) = Inr (pkg', fx')
   \<Longrightarrow> settled a pkg'"
proof (induction xs arbitrary: pkg fx)
  case Nil
  then show ?case by simp
next
  case (Cons x xs)
  from Cons.prems(3) obtain p1 f1 where 1: "applyStep x (pkg, fx) = Inr (p1, f1)"
      and 2: "runSteps xs (p1, f1) = Inr (pkg', fx')"
    by (auto split: sum.splits)
  from Cons.prems(1,2) 1 have "settled a p1"
    by (auto intro: applyStep_keeps)
  with Cons.IH Cons.prems(2) 2 show ?case by simp
qed

lemma runSteps_settles:
  "list_all wfStep xs \<Longrightarrow> compatList xs \<Longrightarrow> runSteps xs (pkg, fx) = Inr (pkg', fx')
   \<Longrightarrow> list_all (\<lambda>st. settled st pkg') xs"
proof (induction xs arbitrary: pkg fx)
  case Nil
  then show ?case by simp
next
  case (Cons x xs)
  from Cons.prems(3) obtain p1 f1 where 1: "applyStep x (pkg, fx) = Inr (p1, f1)"
      and 2: "runSteps xs (p1, f1) = Inr (pkg', fx')"
    by (auto split: sum.splits)
  from Cons.prems(1) 1 have "settled x p1"
    by (auto intro: applyStep_settles)
  with Cons.prems(2) 2 have "settled x pkg'"
    by (auto intro: runSteps_keeps)
  moreover from Cons.IH Cons.prems(1,2) 2 have "list_all (\<lambda>st. settled st pkg') xs"
    by simp
  ultimately show ?case by simp
qed

lemma runSteps_noop:
  "list_all (\<lambda>st. settled st pkg) xs \<Longrightarrow> runSteps xs (pkg, fx) = Inr (pkg, fx)"
  by (induction xs) (simp_all add: settled_noop)

lemma runSteps_again:
  "list_all wfStep xs \<Longrightarrow> compatList xs \<Longrightarrow> runSteps xs (pkg, fx) = Inr (pkg', fx')
   \<Longrightarrow> runSteps xs (pkg', fx2) = Inr (pkg', fx2)"
  by (rule runSteps_noop) (rule runSteps_settles)

lemma dashSpaces_name: "dashSpaces n @ suffix = [] \<longleftrightarrow> dashSpaces n = [] \<and> suffix = []"
  by simp

lemma backendSteps_ok: "list_all wfStep (backendSteps name) \<and> compatList (backendSteps name)"
  by (simp add: backendSteps_def requireAll_def REQUIRED_BACKEND_dependencies_def
      REQUIRED_BACKEND_devDependencies_def)

lemma frontendSteps_ok: "list_all wfStep (frontendSteps name) \<and> compatList (frontendSteps name)"
  by (simp add: frontendSteps_def requireAll_def REQUIRED_FRONTEND_dependencies_def
      REQUIRED_FRONTEND_devDependencies_def)

text \<open>
  A manifest is stable for the platform's \<open>JSON\<close> functions when no statement of the
  repair throws after a fix was pushed, and parsing the serialized repaired manifest gives
  the repaired manifest back.
\<close>

definition manifestOK ::
  "(string \<Rightarrow> json option) \<Rightarrow> (json \<Rightarrow> string) \<Rightarrow> fix_step list \<Rightarrow> string \<Rightarrow> bool" where
  "manifestOK parse stringify steps content =
     (case parse content of
        None \<Rightarrow> True
      | Some pkg \<Rightarrow>
          (case runSteps steps (pkg, []) of
             Inl fixes \<Rightarrow> fixes = []
           | Inr (pkg', fixes) \<Rightarrow> parse (stringify pkg') = Some pkg'))"

lemma fixPackageJson_again:
  assumes "list_all wfStep steps" "compatList steps" "manifestOK parse stringify steps content"
  shows "fixPackageJson parse stringify steps (fst (fixPackageJson parse stringify steps content))
         = (fst (fixPackageJson parse stringify steps content), [])"
proof (cases "parse content")
  case None
  then show ?thesis by (simp add: fixPackageJson_def)
next
  case (Some pkg)
  show ?thesis
  proof (cases "runSteps steps (pkg, [])")
    case (Inl fx)
    with Some assms(3) have "fx = []" by (simp add: manifestOK_def)
    with Some Inl show ?thesis by (simp add: fixPackageJson_def)
  next
    case (Inr r)
    obtain pkg' fx where r: "r = (pkg', fx)" by (cases r)
    with Some Inr assms(3) have p: "parse (stringify pkg') = Some pkg'"
      by (simp add: manifestOK_def)
    from Inr r have "runSteps steps (pkg', []) = Inr (pkg', [])"
      by (auto intro: runSteps_again [OF assms(1,2)])
    with Some Inr r p show ?thesis by (simp add: fixPackageJson_def)
  qed
qed

subsection \<open>No call of the deprecated package survives the replacement\<close>

text \<open>Some position of the string matches \<open>/require\(['"]bcrypt['"]\)/\<close>.\<close>

fun anyBcrypt :: "string \<Rightarrow> bool" where
  "anyBcrypt [] = False"
| "anyBcrypt (c # cs) = (matchBcrypt (c # cs) \<noteq> None \<or> anyBcrypt cs)"

lemma matchBcrypt_iff:
  "matchBcrypt s = Some r \<longleftrightarrow>
     (\<exists>q1 q2. isQuote q1 \<and> isQuote q2 \<and> s = ''require('' @ q1 # ''bcrypt'' @ q2 # '')'' @ r)"
proof
  assume m: "matchBcrypt s = Some r"
  then obtain s0 where s0: "stripPrefix ''require('' s = Some s0"
    by (auto simp only: matchBcrypt_def split: option.splits)
  with m obtain q1 s1 where q1: "s0 = q1 # s1" "isQuote q1"
    by (auto simp only: matchBcrypt_def option.case split: list.splits if_splits)
  with m s0 obtain s2' where s2': "stripPrefix ''bcrypt'' s1 = Some s2'"
    by (auto simp only: matchBcrypt_def option.case list.case if_True split: option.splits)
  with m s0 q1 obtain q2 s2 where q2: "s2' = q2 # s2" "isQuote q2"
    by (auto simp only: matchBcrypt_def option.case list.case if_True split: list.splits if_splits)
  with m s0 q1 s2' have "stripPrefix '')'' s2 = Some r"
    by (simp only: matchBcrypt_def option.case list.case if_True)
  with s0 q1 s2' q2 have "s = ''require('' @ q1 # ''bcrypt'' @ q2 # '')'' @ r"
    by (simp add: stripPrefix_Some)
  with q1 q2 show "\<exists>q1 q2. isQuote q1 \<and> isQuote q2 \<and> s = ''require('' @ q1 # ''bcrypt'' @ q2 # '')'' @ r"
    by blast
next
  assume "\<exists>q1 q2. isQuote q1 \<and> isQuote q2 \<and> s = ''require('' @ q1 # ''bcrypt'' @ q2 # '')'' @ r"
  then obtain q1 q2 where q: "isQuote q1" "isQuote q2"
      and s: "s = ''require('' @ (q1 # ''bcrypt'' @ (q2 # '')'' @ r))"
    by auto
  have 1: "stripPrefix ''require('' s = Some (q1 # ''bcrypt'' @ (q2 # '')'' @ r))"
    unfolding s by (simp only: stripPrefix_Some)
  have 2: "stripPrefix ''bcrypt'' (''bcrypt'' @ (q2 # '')'' @ r)) = Some (q2 # '')'' @ r)"
    by (simp only: stripPrefix_Some)
  have 3: "stripPrefix '')'' ('')'' @ r) = Some r"
    by (simp only: stripPrefix_Some)
  show "matchBcrypt s = Some r"
    unfolding matchBcrypt_def 1 option.case list.case
    by (simp only: q if_True 2 option.case list.case 3)
qed

lemma matchBcrypt_first:
  "matchBcrypt s = Some r \<Longrightarrow> \<exists>s'. s = CHR ''r'' # CHR ''e'' # CHR ''q'' # s'"
  by (auto simp only: matchBcrypt_iff) simp

lemma matchBcrypt_other:
  "\<not> (\<exists>s'. s = CHR ''r'' # CHR ''e'' # CHR ''q'' # s') \<Longrightarrow> matchBcrypt s = None"
  using matchBcrypt_first [of s] by (cases "matchBcrypt s") auto

lemma replaceBcrypt_Nil [simp]: "replaceBcrypt [] = []"
  by (simp add: replaceBcrypt.simps)

lemma replaceBcrypt_other:
  assumes "replaceBcrypt s = x # t" "x \<noteq> CHR ''r''"
  shows "\<exists>s'. s = x # s' \<and> t = replaceBcrypt s'"
proof (cases "matchBcrypt s")
  case None
  from assms(1) have "s \<noteq> []" by auto
  with None assms(1) have "hd s # replaceBcrypt (tl s) = x # t"
    by (subst (asm) replaceBcrypt.simps) simp
  with \<open>s \<noteq> []\<close> show ?thesis by (cases s) auto
next
  case (Some rest)
  from assms(1) have "s \<noteq> []" by auto
  with Some assms(1) have "BCRYPTJS @ replaceBcrypt rest = x # t"
    by (subst (asm) replaceBcrypt.simps) simp
  with assms(2) show ?thesis by (simp add: BCRYPTJS_def)
qed

lemma replaceBcrypt_word:
  "replaceBcrypt s = w @ t \<Longrightarrow> CHR ''r'' \<notin> set w \<Longrightarrow> \<exists>s'. s = w @ s' \<and> t = replaceBcrypt s'"
proof (induction w arbitrary: s)
  case Nil
  then show ?case by simp
next
  case (Cons x w)
  from Cons.prems have "replaceBcrypt s = x # (w @ t)" "x \<noteq> CHR ''r''" by auto
  then obtain s1 where s1: "s = x # s1" "w @ t = replaceBcrypt s1"
    using replaceBcrypt_other by blast
  with Cons.IH [of s1] Cons.prems(2) obtain s' where "s1 = w @ s'" "t = replaceBcrypt s'"
    by auto
  with s1 show ?case by simp
qed

lemma replaceBcrypt_r:
  assumes "replaceBcrypt s = CHR ''r'' # y # t" "y \<noteq> CHR ''e''"
  shows "\<exists>s'. s = CHR ''r'' # s' \<and> y # t = replaceBcrypt s'"
proof (cases "matchBcrypt s")
  case None
  from assms(1) have "s \<noteq> []" by auto
  with None assms(1) have "hd s # replaceBcrypt (tl s) = CHR ''r'' # y # t"
    by (subst (asm) replaceBcrypt.simps) simp
  with \<open>s \<noteq> []\<close> show ?thesis by (cases s) auto
next
  case (Some rest)
  from assms(1) have "s \<noteq> []" by auto
  with Some assms(1) have "BCRYPTJS @ replaceBcrypt rest = CHR ''r'' # y # t"
    by (subst (asm) replaceBcrypt.simps) simp
  with assms(2) show ?thesis by (simp add: BCRYPTJS_def)
qed

lemma replaceBcrypt_re:
  assumes "replaceBcrypt s = CHR ''r'' # CHR ''e'' # z # t" "z \<noteq> CHR ''q''"
  shows "\<exists>s'. s = CHR ''r'' # s' \<and> CHR ''e'' # z # t = replaceBcrypt s'"
proof (cases "matchBcrypt s")
  case None
  from assms(1) have "s \<noteq> []" by auto
  with None assms(1) have "hd s # replaceBcrypt (tl s) = CHR ''r'' # CHR ''e'' # z # t"
    by (subst (asm) replaceBcrypt.simps) simp
  with \<open>s \<noteq> []\<close> show ?thesis by (cases s) auto
next
  case (Some rest)
  from assms(1) have "s \<noteq> []" by auto
  with Some assms(1) have "BCRYPTJS @ replaceBcrypt rest = CHR ''r'' # CHR ''e'' # z # t"
    by (subst (asm) replaceBcrypt.simps) simp
  with assms(2) show ?thesis by (simp add: BCRYPTJS_def)
qed

lemma isQuote_not_r: "isQuote q \<Longrightarrow> q \<noteq> CHR ''r''"
  by (auto simp: isQuote_def)

lemma matchBcrypt_replaced:
  assumes "matchBcrypt (c # replaceBcrypt cs) = Some r"
  shows "\<exists>r'. matchBcrypt (c # cs) = Some r'"
proof -
  from assms obtain q1 q2 where q: "isQuote q1" "isQuote q2"
      and e: "c # replaceBcrypt cs = ''require('' @ q1 # ''bcrypt'' @ q2 # '')'' @ r"
    by (auto simp only: matchBcrypt_iff)
  from e have c: "c = CHR ''r''"
      and 0: "replaceBcrypt cs = ''equi'' @ (CHR ''r'' # CHR ''e'' # CHR ''('' # q1 # ''bcrypt'' @ q2 # '')'' @ r)"
    by simp_all
  from replaceBcrypt_word [OF 0] obtain s1 where s1: "cs = ''equi'' @ s1"
      and 1: "replaceBcrypt s1 = CHR ''r'' # CHR ''e'' # CHR ''('' # q1 # ''bcrypt'' @ q2 # '')'' @ r"
    by auto
  from replaceBcrypt_re [OF 1] obtain s2 where s2: "s1 = CHR ''r'' # s2"
      and 2: "replaceBcrypt s2 = (CHR ''e'' # CHR ''('' # q1 # ''bc'') @ (CHR ''r'' # ''ypt'' @ q2 # '')'' @ r)"
    by auto
  from q(1) have "CHR ''r'' \<notin> set (CHR ''e'' # CHR ''('' # q1 # ''bc'')"
    by (auto dest: isQuote_not_r)
  from replaceBcrypt_word [OF 2 this] obtain s3 where s3: "s2 = (CHR ''e'' # CHR ''('' # q1 # ''bc'') @ s3"
      and 3: "replaceBcrypt s3 = CHR ''r'' # CHR ''y'' # (''pt'' @ q2 # '')'' @ r)"
    by auto
  from replaceBcrypt_r [OF 3] obtain s4 where s4: "s3 = CHR ''r'' # s4"
      and 4: "replaceBcrypt s4 = (''ypt'' @ q2 # '')'') @ r"
    by auto
  from q(2) have "CHR ''r'' \<notin> set (''ypt'' @ q2 # '')'')"
    by (auto dest: isQuote_not_r)
  from replaceBcrypt_word [OF 4 this] obtain s5 where s5: "s4 = (''ypt'' @ q2 # '')'') @ s5"
    by auto
  from c s1 s2 s3 s4 s5 have "c # cs = ''require('' @ q1 # ''bcrypt'' @ q2 # '')'' @ s5"
    by simp
  with q have "matchBcrypt (c # cs) = Some s5"
    by (auto simp only: matchBcrypt_iff)
  then show ?thesis ..
qed

lemma matchBcrypt_BCRYPTJS: "matchBcrypt (BCRYPTJS @ t) = None"
proof (cases "matchBcrypt (BCRYPTJS @ t)")
  case None
  then show ?thesis .
next
  case (Some r)
  then obtain q1 q2 where "isQuote q2"
      "BCRYPTJS @ t = ''require('' @ q1 # ''bcrypt'' @ q2 # '')'' @ r"
    by (auto simp only: matchBcrypt_iff)
  then have "isQuote (CHR ''j'')" by (simp add: BCRYPTJS_def)
  then show ?thesis by (simp add: isQuote_def)
qed

lemma anyBcrypt_BCRYPTJS: "anyBcrypt (BCRYPTJS @ t) = anyBcrypt t"
proof -
  have "anyBcrypt (BCRYPTJS @ t) = anyBcrypt (tl BCRYPTJS @ t)"
    using matchBcrypt_BCRYPTJS [of t] by (simp add: BCRYPTJS_def)
  also have "\<dots> = anyBcrypt t"
    by (simp add: BCRYPTJS_def matchBcrypt_other)
  finally show ?thesis .
qed

lemma replaceBcrypt_clean: "\<not> anyBcrypt (replaceBcrypt s)"
proof (induction s rule: replaceBcrypt.induct)
  case (1 s)
  show ?case
  proof (cases "s = []")
    case True
    then show ?thesis by simp
  next
    case False
    show ?thesis
    proof (cases "matchBcrypt s")
      case None
      with False 1 have ih: "\<not> anyBcrypt (replaceBcrypt (tl s))" by simp
      from False obtain c cs where s: "s = c # cs" by (cases s) auto
      from None s have "matchBcrypt (c # replaceBcrypt cs) = None"
        using matchBcrypt_replaced [of c cs] by (cases "matchBcrypt (c # replaceBcrypt cs)") auto
      with ih s have "\<not> anyBcrypt (c # replaceBcrypt cs)" by simp
      moreover from None s have "replaceBcrypt s = c # replaceBcrypt cs"
        by (subst replaceBcrypt.simps) simp
      ultimately show ?thesis by simp
    next
      case (Some rest)
      with False 1 have ih: "\<not> anyBcrypt (replaceBcrypt rest)" by simp
      from Some False have "replaceBcrypt s = BCRYPTJS @ replaceBcrypt rest"
        by (subst replaceBcrypt.simps) simp
      with ih show ?thesis by (simp add: anyBcrypt_BCRYPTJS)
    qed
  qed
qed

lemma includesStr_anyBcrypt:
  "includesStr c REQUIRE_BCRYPT_SINGLE \<or> includesStr c REQUIRE_BCRYPT_DOUBLE \<Longrightarrow> anyBcrypt c"
proof (induction c)
  case Nil
  then show ?case by (simp add: REQUIRE_BCRYPT_SINGLE_def REQUIRE_BCRYPT_DOUBLE_def)
next
  case (Cons x xs)
  show ?case
  proof (cases "includesStr xs REQUIRE_BCRYPT_SINGLE \<or> includesStr xs REQUIRE_BCRYPT_DOUBLE")
    case True
    with Cons.IH show ?thesis by simp
  next
    case False
    with Cons.prems have "stripPrefix REQUIRE_BCRYPT_SINGLE (x # xs) \<noteq> None \<or>
        stripPrefix REQUIRE_BCRYPT_DOUBLE (x # xs) \<noteq> None"
      by auto
    then obtain r where "x # xs = REQUIRE_BCRYPT_SINGLE @ r \<or> x # xs = REQUIRE_BCRYPT_DOUBLE @ r"
      by (auto simp: stripPrefix_Some)
    then have "\<exists>q1 q2. isQuote q1 \<and> isQuote q2 \<and>
        x # xs = ''require('' @ q1 # ''bcrypt'' @ q2 # '')'' @ r"
    proof
      assume "x # xs = REQUIRE_BCRYPT_SINGLE @ r"
      then have "isQuote (CHR 0x27) \<and> isQuote (CHR 0x27) \<and>
          x # xs = ''require('' @ CHR 0x27 # ''bcrypt'' @ CHR 0x27 # '')'' @ r"
        by (simp add: REQUIRE_BCRYPT_SINGLE_def isQuote_def)
      then show ?thesis by blast
    next
      assume "x # xs = REQUIRE_BCRYPT_DOUBLE @ r"
      then have "isQuote (CHR 0x22) \<and> isQuote (CHR 0x22) \<and>
          x # xs = ''require('' @ CHR 0x22 # ''bcrypt'' @ CHR 0x22 # '')'' @ r"
        by (simp add: REQUIRE_BCRYPT_DOUBLE_def isQuote_def)
      then show ?thesis by blast
    qed
    then have "matchBcrypt (x # xs) = Some r"
      by (simp only: matchBcrypt_iff)
    then show ?thesis by simp
  qed
qed

lemma replaceBcrypt_no_includes:
  "\<not> includesStr (replaceBcrypt c) REQUIRE_BCRYPT_SINGLE \<and>
   \<not> includesStr (replaceBcrypt c) REQUIRE_BCRYPT_DOUBLE"
  using includesStr_anyBcrypt [of "replaceBcrypt c"] replaceBcrypt_clean [of c] by blast

subsection \<open>What the pass does to the keys and to the manifests\<close>

lemma fixManifest_keys: "map fst (fst (fixManifest key fixer (fs, fx))) = map fst fs"
proof (cases "map_of fs key")
  case None
  then show ?thesis by (simp add: fixManifest_def)
next
  case (Some content)
  then have "key \<in> set (map fst fs)"
    by (metis map_of_eq_None_iff option.distinct(1) set_map)
  then have "map fst (AList.update key v fs) = map fst fs" for v
    by (simp add: update_keys)
  with Some show ?thesis
    by (simp add: fixManifest_def setProp_def split: prod.splits)
qed

lemma fixManifest_other:
  "key' \<noteq> key \<Longrightarrow> map_of (fst (fixManifest key fixer (fs, fx))) key' = map_of fs key'"
  by (simp add: fixManifest_def setProp_def update_conv' split: option.splits prod.splits)

lemma fixManifest_same:
  "key \<noteq> ''__proto__'' \<Longrightarrow>
   map_of (fst (fixManifest key fixer (fs, fx))) key =
     (case map_of fs key of
        None \<Rightarrow> None
      | Some c \<Rightarrow> if c = [] then Some c else Some (fst (fixer c)))"
  by (simp add: fixManifest_def setProp_def update_conv' split: option.splits prod.splits)

lemma fixBcryptEntry_key [simp]: "fst (fixBcryptEntry e) = fst e"
  by (simp add: fixBcryptEntry_def)

lemma map_fixBcryptEntry_keys: "map fst (map fixBcryptEntry fs) = map fst fs"
  by simp

lemma map_of_fixBcryptEntry:
  "map_of (map fixBcryptEntry fs) k = map_option (\<lambda>c. snd (fixBcryptEntry (k, c))) (map_of fs k)"
  by (induction fs) (auto simp: fixBcryptEntry_def)

lemma fixBcryptEntry_done: "\<not> needsBcryptFix (fst e) (snd (fixBcryptEntry e))"
  by (simp add: fixBcryptEntry_def needsBcryptFix_def replaceBcrypt_no_includes)

text \<open>The three deletions at the end of the pass.\<close>

definition dropEnv :: "files \<Rightarrow> files" where
  "dropEnv fs =
     AList.delete ''frontend/.env.local''
       (AList.delete ''backend/.env.example'' (AList.delete ''backend/.env'' fs))"

definition ENV_KEYS :: "string list" where
  "ENV_KEYS = [''backend/.env'', ''backend/.env.example'', ''frontend/.env.local'']"

lemma dropEnv_filter: "dropEnv fs = filter (\<lambda>e. fst e \<notin> set ENV_KEYS) fs"
  by (induction fs) (auto simp: dropEnv_def ENV_KEYS_def AList.delete_eq)

lemma validateAndFixFiles_files:
  "fst (validateAndFixFiles parse stringify fs name) =
     dropEnv (map fixBcryptEntry
       (fst (fixManifest ''frontend/package.json''
               (\<lambda>c. fixFrontendPackageJson parse stringify c name)
               (fixManifest ''backend/package.json''
                  (\<lambda>c. fixBackendPackageJson parse stringify c name) (fs, [])))))"
  by (simp add: validateAndFixFiles_def dropEnv_def Let_def split: prod.splits)

lemma manifests_keys:
  "map fst (fst (fixManifest key2 fixer2 (fixManifest key1 fixer1 (fs, [])))) = map fst fs"
proof -
  obtain f1 x1 where 1: "fixManifest key1 fixer1 (fs, []) = (f1, x1)"
    by (cases "fixManifest key1 fixer1 (fs, [])")
  have "map fst (fst (fixManifest key1 fixer1 (fs, []))) = map fst fs"
    by (rule fixManifest_keys)
  then have "map fst f1 = map fst fs"
    by (simp add: 1)
  then show ?thesis
    by (simp add: 1 fixManifest_keys)
qed

text \<open>
  The keys of the output are the keys of the input without \<open>backend/.env\<close>,
  \<open>backend/.env.example\<close> and \<open>frontend/.env.local\<close>, in the same order.
\<close>

lemma output_keys:
  "map fst (fst (validateAndFixFiles parse stringify fs name)) =
     filter (\<lambda>k. k \<notin> set ENV_KEYS) (map fst fs)"
proof -
  have "map fst (dropEnv (map fixBcryptEntry xs)) =
      filter (\<lambda>k. k \<notin> set ENV_KEYS) (map fst (map fixBcryptEntry xs))" for xs
    unfolding dropEnv_filter filter_map o_def ..
  then show ?thesis
    by (simp only: validateAndFixFiles_files map_fixBcryptEntry_keys manifests_keys)
qed

lemma dropEnv_subset: "set (dropEnv fs) \<subseteq> set fs"
  by (auto simp: dropEnv_filter)

lemma dropEnv_again: "dropEnv (dropEnv fs) = dropEnv fs"
  by (simp add: dropEnv_filter)

lemma map_of_dropEnv: "k \<notin> set ENV_KEYS \<Longrightarrow> map_of (dropEnv fs) k = map_of fs k"
  by (induction fs) (auto simp: dropEnv_filter)

lemma manifest_not_source:
  "\<not> needsBcryptFix ''backend/package.json'' c" "\<not> needsBcryptFix ''frontend/package.json'' c"
  by (simp_all add: needsBcryptFix_def endsWith_def)

text \<open>The manifests after the first two steps and in the output.\<close>

lemma output_manifest:
  assumes "key = ''backend/package.json'' \<or> key = ''frontend/package.json''"
  shows "map_of (fst (validateAndFixFiles parse stringify fs name)) key =
         (case map_of fs key of
            None \<Rightarrow> None
          | Some c \<Rightarrow>
              if c = [] then Some c
              else Some (fst (fixPackageJson parse stringify
                     (if key = ''backend/package.json'' then backendSteps name
                      else frontendSteps name) c)))"
proof -
  let ?B = "\<lambda>c. fixBackendPackageJson parse stringify c name"
  let ?F = "\<lambda>c. fixFrontendPackageJson parse stringify c name"
  obtain f1 x1 where 1: "fixManifest ''backend/package.json'' ?B (fs, []) = (f1, x1)"
    by (cases "fixManifest ''backend/package.json'' ?B (fs, [])")
  let ?f2 = "fst (fixManifest ''frontend/package.json'' ?F (f1, x1))"
  have f1: "f1 = fst (fixManifest ''backend/package.json'' ?B (fs, []))"
    by (simp add: 1)
  have out: "map_of (fst (validateAndFixFiles parse stringify fs name)) key = map_of ?f2 key"
  proof -
    from assms have "key \<notin> set ENV_KEYS" by (auto simp: ENV_KEYS_def)
    then have "map_of (fst (validateAndFixFiles parse stringify fs name)) key
        = map_of (map fixBcryptEntry ?f2) key"
      by (simp add: validateAndFixFiles_files 1 map_of_dropEnv)
    also have "\<dots> = map_of ?f2 key"
      using assms manifest_not_source
      by (cases "map_of ?f2 key") (auto simp: map_of_fixBcryptEntry fixBcryptEntry_def)
    finally show ?thesis .
  qed
  from assms show ?thesis
  proof
    assume k: "key = ''backend/package.json''"
    have "map_of ?f2 key = map_of f1 key"
      unfolding k by (rule fixManifest_other) simp
    also have "\<dots> = (case map_of fs key of None \<Rightarrow> None
        | Some c \<Rightarrow> if c = [] then Some c else Some (fst (?B c)))"
      unfolding k f1 by (rule fixManifest_same) simp
    finally show ?thesis
      using out unfolding k fixBackendPackageJson_def by simp
  next
    assume k: "key = ''frontend/package.json''"
    have "map_of ?f2 key = (case map_of f1 key of None \<Rightarrow> None
        | Some c \<Rightarrow> if c = [] then Some c else Some (fst (?F c)))"
      unfolding k by (rule fixManifest_same) simp
    also have "map_of f1 key = map_of fs key"
      unfolding k f1 by (rule fixManifest_other) simp
    finally show ?thesis
      using out unfolding k fixFrontendPackageJson_def by simp
  qed
qed

lemma output_sources:
  assumes "e \<in> set (fst (validateAndFixFiles parse stringify fs name))"
  shows "\<not> needsBcryptFix (fst e) (snd e)"
proof -
  from assms obtain xs where "e \<in> set (dropEnv (map fixBcryptEntry xs))"
    by (auto simp: validateAndFixFiles_files)
  with dropEnv_subset have "e \<in> set (map fixBcryptEntry xs)" by blast
  then obtain e0 where "e = fixBcryptEntry e0" by auto
  then show ?thesis by (simp add: fixBcryptEntry_done)
qed

lemma output_other:
  assumes "k \<notin> set ENV_KEYS" "k \<noteq> ''backend/package.json''" "k \<noteq> ''frontend/package.json''"
  shows "map_of (fst (validateAndFixFiles parse stringify fs name)) k =
         map_option (\<lambda>c. if needsBcryptFix k c then replaceBcrypt c else c) (map_of fs k)"
proof -
  let ?B = "\<lambda>c. fixBackendPackageJson parse stringify c name"
  let ?F = "\<lambda>c. fixFrontendPackageJson parse stringify c name"
  obtain f1 x1 where 1: "fixManifest ''backend/package.json'' ?B (fs, []) = (f1, x1)"
    by (cases "fixManifest ''backend/package.json'' ?B (fs, [])")
  let ?f2 = "fst (fixManifest ''frontend/package.json'' ?F (f1, x1))"
  have f1: "f1 = fst (fixManifest ''backend/package.json'' ?B (fs, []))"
    by (simp add: 1)
  have "map_of ?f2 k = map_of f1 k"
    using assms(3) by (intro fixManifest_other) simp
  also have "\<dots> = map_of fs k"
    unfolding f1 using assms(2) by (intro fixManifest_other) simp
  finally have 2: "map_of ?f2 k = map_of fs k" .
  have "map_of (fst (validateAndFixFiles parse stringify fs name)) k =
      map_of (map fixBcryptEntry ?f2) k"
    using assms(1) by (simp add: validateAndFixFiles_files 1 map_of_dropEnv)
  also have "\<dots> = map_option (\<lambda>c. snd (fixBcryptEntry (k, c))) (map_of fs k)"
    by (simp only: map_of_fixBcryptEntry 2)
  finally show ?thesis
    by (cases "map_of fs k") (simp_all add: fixBcryptEntry_def)
qed

text \<open>
  Claim C7, as amended. In the output no file under \<open>backend/\<close> whose name ends in \<open>.js\<close>
  contains \<open>require('bcrypt')\<close> or \<open>require("bcrypt")\<close>. When the input has a non-empty
  backend manifest that parses, whose repair raises no type error and whose repaired form
  is what parsing its serialization gives, the backend manifest of the output is that
  serialization and parses to a manifest whose \<open>dependencies\<close> have a truthy \<open>bcryptjs\<close>
  entry and no truthy \<open>bcrypt\<close> entry. Nothing else is rewritten: without a backend manifest in the input there is none
  in the output, and every file that is neither a manifest nor one of the three deleted
  environment files comes out as it went in, but for the \<open>require\<close> calls replaced in a file
  under \<open>backend/\<close> whose name ends in \<open>.js\<close>.
\<close>

theorem bcrypt_repaired:
  "(\<forall>e \<in> set (fst (validateAndFixFiles parse stringify fs name)).
      startsWith (fst e) ''backend/'' \<and> endsWith (fst e) ''.js'' \<longrightarrow>
      \<not> includesStr (snd e) REQUIRE_BCRYPT_SINGLE \<and> \<not> includesStr (snd e) REQUIRE_BCRYPT_DOUBLE) \<and>
   (\<forall>c pkg pkg' fx.
      map_of fs ''backend/package.json'' = Some c \<and> c \<noteq> [] \<and> parse c = Some pkg \<and>
      runSteps (backendSteps name) (pkg, []) = Inr (pkg', fx) \<and>
      parse (stringify pkg') = Some pkg' \<longrightarrow>
      (\<exists>out deps.
         map_of (fst (validateAndFixFiles parse stringify fs name)) ''backend/package.json''
           = Some out \<and>
         out = stringify pkg' \<and> parse out = Some pkg' \<and>
         propOf pkg' ''dependencies'' = Some deps \<and>
         truthy (propOf deps ''bcryptjs'') \<and> \<not> truthy (propOf deps ''bcrypt''))) \<and>
   (map_of fs ''backend/package.json'' = None \<longrightarrow>
      map_of (fst (validateAndFixFiles parse stringify fs name)) ''backend/package.json'' = None) \<and>
   (\<forall>k c.
      map_of fs k = Some c \<and> k \<notin> set ENV_KEYS \<and> k \<noteq> ''backend/package.json'' \<and>
      k \<noteq> ''frontend/package.json'' \<longrightarrow>
      map_of (fst (validateAndFixFiles parse stringify fs name)) k =
        Some (if startsWith k ''backend/'' \<and> endsWith k ''.js'' \<and>
                 (includesStr c REQUIRE_BCRYPT_SINGLE \<or> includesStr c REQUIRE_BCRYPT_DOUBLE)
              then replaceBcrypt c else c))"
proof (intro conjI ballI allI impI)
  fix e assume "e \<in> set (fst (validateAndFixFiles parse stringify fs name))"
    and "startsWith (fst e) ''backend/'' \<and> endsWith (fst e) ''.js''"
  with output_sources [of e parse stringify fs name]
  show "\<not> includesStr (snd e) REQUIRE_BCRYPT_SINGLE" "\<not> includesStr (snd e) REQUIRE_BCRYPT_DOUBLE"
    by (simp_all add: needsBcryptFix_def)
next
  fix c pkg pkg' fx
  assume a: "map_of fs ''backend/package.json'' = Some c \<and> c \<noteq> [] \<and> parse c = Some pkg \<and>
      runSteps (backendSteps name) (pkg, []) = Inr (pkg', fx) \<and>
      parse (stringify pkg') = Some pkg'"
  then have out: "map_of (fst (validateAndFixFiles parse stringify fs name)) ''backend/package.json''
        = Some (stringify pkg')"
    by (simp add: output_manifest fixPackageJson_def)
  from a backendSteps_ok have all: "list_all (\<lambda>st. settled st pkg') (backendSteps name)"
    by (auto intro: runSteps_settles)
  have "EnsureSub ''dependencies'' ''bcryptjs'' (JStr ''^2.4.3'') [''Added missing dependency: bcryptjs'']
      \<in> set (backendSteps name)"
    by (simp add: backendSteps_def requireAll_def REQUIRED_BACKEND_dependencies_def)
  with all have "settled (EnsureSub ''dependencies'' ''bcryptjs'' (JStr ''^2.4.3'')
      [''Added missing dependency: bcryptjs'']) pkg'"
    by (simp only: list_all_iff)
  then obtain deps where d: "propOf pkg' ''dependencies'' = Some deps"
      "truthy (propOf deps ''bcryptjs'')"
    by (auto simp: settled_EnsureSub)
  have "RemoveSub ''dependencies'' ''bcrypt'' [''Removed bcrypt (using bcryptjs instead)'']
      \<in> set (backendSteps name)"
    by (simp add: backendSteps_def requireAll_def REQUIRED_BACKEND_dependencies_def)
  with all have "settled (RemoveSub ''dependencies'' ''bcrypt''
      [''Removed bcrypt (using bcryptjs instead)'']) pkg'"
    by (simp only: list_all_iff)
  with d have "\<not> truthy (propOf deps ''bcrypt'')"
    by (auto simp: settled_RemoveSub)
  with d out a show "\<exists>out deps.
      map_of (fst (validateAndFixFiles parse stringify fs name)) ''backend/package.json''
        = Some out \<and>
      out = stringify pkg' \<and> parse out = Some pkg' \<and>
      propOf pkg' ''dependencies'' = Some deps \<and>
      truthy (propOf deps ''bcryptjs'') \<and> \<not> truthy (propOf deps ''bcrypt'')"
    by blast
next
  assume "map_of fs ''backend/package.json'' = None"
  then show "map_of (fst (validateAndFixFiles parse stringify fs name)) ''backend/package.json''
      = None"
    by (simp add: output_manifest)
next
  fix k c
  assume a: "map_of fs k = Some c \<and> k \<notin> set ENV_KEYS \<and> k \<noteq> ''backend/package.json'' \<and>
      k \<noteq> ''frontend/package.json''"
  then have "map_of (fst (validateAndFixFiles parse stringify fs name)) k =
      Some (if needsBcryptFix k c then replaceBcrypt c else c)"
    by (simp add: output_other)
  then show "map_of (fst (validateAndFixFiles parse stringify fs name)) k =
      Some (if startsWith k ''backend/'' \<and> endsWith k ''.js'' \<and>
               (includesStr c REQUIRE_BCRYPT_SINGLE \<or> includesStr c REQUIRE_BCRYPT_DOUBLE)
            then replaceBcrypt c else c)"
    by (simp add: needsBcryptFix_def)
qed

text \<open>
  Claim C5, as amended. When each manifest of the input that is present and not empty
  is stable, a second pass over the output of a first pass leaves the file map as it is
  and reports exactly the warnings about relative imports without a file: no manifest fix
  and no source fix is reported twice.
\<close>

theorem second_pass_only_warns:
  assumes "\<forall>c. map_of fs ''backend/package.json'' = Some c \<and> c \<noteq> [] \<longrightarrow>
             manifestOK parse stringify (backendSteps name) c"
    and "\<forall>c. map_of fs ''frontend/package.json'' = Some c \<and> c \<noteq> [] \<longrightarrow>
             manifestOK parse stringify (frontendSteps name) c"
  shows "validateAndFixFiles parse stringify
           (fst (validateAndFixFiles parse stringify fs name)) name =
         (fst (validateAndFixFiles parse stringify fs name),
          validateAndFixImports (fst (validateAndFixFiles parse stringify fs name)))"
proof -
  let ?m = "fst (validateAndFixFiles parse stringify fs name)"
  let ?B = "\<lambda>c. fixBackendPackageJson parse stringify c name"
  let ?F = "\<lambda>c. fixFrontendPackageJson parse stringify c name"
  have b: "fixManifest ''backend/package.json'' ?B (?m, []) = (?m, [])"
  proof (cases "map_of fs ''backend/package.json''")
    case None
    then show ?thesis by (simp add: fixManifest_def output_manifest)
  next
    case (Some c)
    show ?thesis
    proof (cases "c = []")
      case True
      with Some show ?thesis by (simp add: fixManifest_def output_manifest)
    next
      case False
      let ?c1 = "fst (fixPackageJson parse stringify (backendSteps name) c)"
      from Some False have m: "map_of ?m ''backend/package.json'' = Some ?c1"
        by (simp add: output_manifest)
      from Some False assms(1) have "manifestOK parse stringify (backendSteps name) c"
        by simp
      with backendSteps_ok have "?B ?c1 = (?c1, [])"
        unfolding fixBackendPackageJson_def by (intro fixPackageJson_again) simp_all
      with m show ?thesis
        by (simp add: fixManifest_def setProp_def update_triv)
    qed
  qed
  have f: "fixManifest ''frontend/package.json'' ?F (?m, []) = (?m, [])"
  proof (cases "map_of fs ''frontend/package.json''")
    case None
    then show ?thesis by (simp add: fixManifest_def output_manifest)
  next
    case (Some c)
    show ?thesis
    proof (cases "c = []")
      case True
      with Some show ?thesis by (simp add: fixManifest_def output_manifest)
    next
      case False
      let ?c1 = "fst (fixPackageJson parse stringify (frontendSteps name) c)"
      from Some False have m: "map_of ?m ''frontend/package.json'' = Some ?c1"
        by (simp add: output_manifest)
      from Some False assms(2) have "manifestOK parse stringify (frontendSteps name) c"
        by simp
      with frontendSteps_ok have "?F ?c1 = (?c1, [])"
        unfolding fixFrontendPackageJson_def by (intro fixPackageJson_again) simp_all
      with m show ?thesis
        by (simp add: fixManifest_def setProp_def update_triv)
    qed
  qed
  have clean: "\<forall>e \<in> set ?m. \<not> needsBcryptFix (fst e) (snd e)"
    by (auto dest: output_sources)
  then have s: "map fixBcryptEntry ?m = ?m"
    by (simp add: fixBcryptEntry_def map_idI)
  from clean have x: "bcryptFixes ?m = []"
    by (simp add: bcryptFixes_def filter_empty_conv)
  have d: "dropEnv ?m = ?m"
    by (simp add: validateAndFixFiles_files dropEnv_again)
  show ?thesis
    by (subst validateAndFixFiles_def) (simp add: b f s x d [unfolded dropEnv_def] Let_def)
qed

subsection \<open>Examples\<close>

text \<open>
  For the examples \<open>JSON.stringify(value, null, 2)\<close> is written out for values made of
  objects, arrays, strings, booleans, \<open>null\<close> and integers of less than 22 digits, where a
  string holds no control character other than a line feed: an object or array that is not
  empty puts each member on a line of its own, indented by two more spaces, and the named
  properties of an array are left out. The manifests of the examples hold objects, arrays
  and strings only; the digits of a number that is not an integer are not written out. \<open>JSON.parse\<close> is represented on the manifest texts that the examples
  hand to it, on which it is the inverse of that function.
\<close>

fun joinWith :: "string \<Rightarrow> string list \<Rightarrow> string" where
  "joinWith sep [] = []"
| "joinWith sep [x] = x"
| "joinWith sep (x # y # ys) = x @ sep @ joinWith sep (y # ys)"

definition escapeChar :: "char \<Rightarrow> string" where
  "escapeChar c =
     (if c = CHR 0x22 then [CHR 0x5C, CHR 0x22]
      else if c = CHR 0x5C then [CHR 0x5C, CHR 0x5C]
      else if c = CHR 0x0A then [CHR 0x5C, CHR ''n'']
      else [c])"

definition quoted :: "string \<Rightarrow> string" where
  "quoted s = [CHR 0x22] @ concat (map escapeChar s) @ [CHR 0x22]"

definition lines :: "nat \<Rightarrow> string list \<Rightarrow> string" where
  "lines n members =
     [CHR 0x0A] @
     joinWith ('','' @ [CHR 0x0A]) (map (\<lambda>m. replicate (n + 2) CHR '' '' @ m) members) @
     [CHR 0x0A] @ replicate n CHR '' ''"

fun jsonText :: "nat \<Rightarrow> json \<Rightarrow> string" where
  "jsonText n JNull = ''null''"
| "jsonText n (JBool b) = (if b then ''true'' else ''false'')"
| "jsonText n (JNum r) =
     (case quotient_of r of
        (a, b) \<Rightarrow>
          if b = 1 then (if a < 0 then ''-'' @ showNat (nat (- a)) else showNat (nat a))
          else ''null'')"
| "jsonText n (JStr s) = quoted s"
| "jsonText n (JArr es ps) =
     (if es = [] then ''[]''
      else ''['' @ lines n (map (\<lambda>e. jsonText (n + 2) e) es) @ '']'')"
| "jsonText n (JObj ps) =
     (if ps = [] then ''{}''
      else ''{'' @ lines n (map (\<lambda>p. quoted (fst p) @ '': '' @ jsonText (n + 2) (snd p)) ps) @ ''}'')"

definition example_stringify :: "json \<Rightarrow> string" where
  "example_stringify j = jsonText 0 j"

text \<open>
  A backend manifest that names the deprecated package, one whose \<open>dependencies\<close> are an
  array, and the repaired form of a manifest.
\<close>

definition bcrypt_manifest :: json where
  "bcrypt_manifest =
     JObj [(''name'', JStr ''shop-backend''),
           (''dependencies'', JObj [(''bcrypt'', JStr ''^5.1.1''), (''express'', JStr ''^4.18.2'')])]"

definition repaired :: "json \<Rightarrow> fix_step list \<Rightarrow> json" where
  "repaired pkg steps = (case runSteps steps (pkg, []) of Inl fx \<Rightarrow> JNull | Inr r \<Rightarrow> fst r)"

definition array_manifest :: json where
  "array_manifest = JObj [(''dependencies'', JArr [] [])]"

definition example_manifests :: "json list" where
  "example_manifests =
     [JObj [], bcrypt_manifest, array_manifest,
      repaired bcrypt_manifest (backendSteps ''Shop''),
      repaired (JObj []) (frontendSteps ''Shop'')]"

definition example_parse :: "string \<Rightarrow> json option" where
  "example_parse s = find (\<lambda>j. example_stringify j = s) example_manifests"

text \<open>
  File maps: one with the deprecated package in the backend manifest, in a \<open>require\<close> call
  of a backend file and in an \<open>import\<close> statement of a frontend file; one with a relative
  import without a file; one with three environment files; one with an \<open>import\<close> statement
  of the deprecated package in a backend file and no manifest; one with a \<open>require\<close> call of
  the deprecated package and a manifest whose \<open>dependencies\<close> are an array.
\<close>

definition bcrypt_example :: files where
  "bcrypt_example =
     [(''backend/package.json'', example_stringify bcrypt_manifest),
      (''frontend/package.json'', ''{}''),
      (''backend/src/auth.js'', ''const b = '' @ REQUIRE_BCRYPT_SINGLE @ '';''),
      (''frontend/lib/hash.ts'',
       ''import bcrypt from '' @ [CHR 0x27] @ ''bcrypt'' @ [CHR 0x27] @ '';'')]"

definition dangling_example :: files where
  "dangling_example =
     [(''backend/src/server.js'',
       ''const c = require('' @ [CHR 0x27] @ ''./config'' @ [CHR 0x27] @ '');'')]"

definition env_example :: files where
  "env_example =
     [(''backend/.env'', ''PORT=5000''), (''frontend/.env'', ''PORT=3000''),
      (''frontend/.env.local'', ''PORT=3000'')]"

definition import_example :: files where
  "import_example =
     [(''backend/src/auth.js'',
       ''import bcrypt from '' @ [CHR 0x27] @ ''bcrypt'' @ [CHR 0x27] @ '';'')]"

definition array_example :: files where
  "array_example =
     [(''backend/package.json'', example_stringify array_manifest),
      (''backend/src/auth.js'', ''const b = '' @ REQUIRE_BCRYPT_SINGLE @ '';'')]"

lemma backend_run:
  "runSteps (backendSteps ''Shop'') (bcrypt_manifest, []) =
     Inr (repaired bcrypt_manifest (backendSteps ''Shop''),
          [''Added main entry point'', ''Added start script'',
           ''Added dev script'', ''Added missing dependency: bcryptjs'',
           ''Added missing dependency: cors'', ''Added missing dependency: dotenv'',
           ''Added missing dependency: express-rate-limit'',
           ''Added missing dependency: express-validator'',
           ''Added missing dependency: helmet'', ''Added missing dependency: jsonwebtoken'',
           ''Added missing dependency: pg'', ''Added missing dependency: sequelize'',
           ''Added missing dependency: uuid'', ''Added missing dependency: winston'',
           ''Removed bcrypt (using bcryptjs instead)'',
           ''Added missing devDependency: jest'', ''Added missing devDependency: supertest''])"
  by code_simp

lemma backend_roundtrip:
  "example_parse (example_stringify (repaired bcrypt_manifest (backendSteps ''Shop''))) =
     Some (repaired bcrypt_manifest (backendSteps ''Shop''))"
  by code_simp

lemma example_manifests_ok:
  "manifestOK example_parse example_stringify (backendSteps ''Shop'')
     (example_stringify bcrypt_manifest)"
  "manifestOK example_parse example_stringify (frontendSteps ''Shop'') ''{}''"
  by code_simp+

lemma bcrypt_example_fixed:
  "fst (validateAndFixFiles example_parse example_stringify bcrypt_example ''Shop'') =
     [(''backend/package.json'',
       example_stringify (repaired bcrypt_manifest (backendSteps ''Shop''))),
      (''frontend/package.json'',
       example_stringify (repaired (JObj []) (frontendSteps ''Shop''))),
      (''backend/src/auth.js'', ''const b = '' @ BCRYPTJS @ '';''),
      (''frontend/lib/hash.ts'',
       ''import bcrypt from '' @ [CHR 0x27] @ ''bcrypt'' @ [CHR 0x27] @ '';'')]"
  by code_simp

lemma bcrypt_example_imports:
  "validateAndFixImports
     [(''backend/package.json'',
       example_stringify (repaired bcrypt_manifest (backendSteps ''Shop''))),
      (''frontend/package.json'',
       example_stringify (repaired (JObj []) (frontendSteps ''Shop''))),
      (''backend/src/auth.js'', ''const b = '' @ BCRYPTJS @ '';''),
      (''frontend/lib/hash.ts'',
       ''import bcrypt from '' @ [CHR 0x27] @ ''bcrypt'' @ [CHR 0x27] @ '';'')] = []"
  by code_simp

text \<open>
  Claim C5 as stated fails: a relative import without a file is reported as a fix by the
  first pass and again by the second, since the pass does not rewrite imports.
\<close>

theorem second_pass_counterexample:
  "snd (validateAndFixFiles example_parse example_stringify
         (fst (validateAndFixFiles example_parse example_stringify dangling_example ''Shop''))
         ''Shop'') =
     [''Warning: backend/src/server.js imports '' @ [CHR 0x27] @ ''./config'' @ [CHR 0x27] @
      '' but file not found at backend/src/config'']"
  by code_simp

theorem second_pass_only_warns_witness:
  "validateAndFixFiles example_parse example_stringify
     (fst (validateAndFixFiles example_parse example_stringify bcrypt_example ''Shop'')) ''Shop'' =
   (fst (validateAndFixFiles example_parse example_stringify bcrypt_example ''Shop''), [])"
proof -
  have b: "\<forall>c. map_of bcrypt_example ''backend/package.json'' = Some c \<and> c \<noteq> [] \<longrightarrow>
      manifestOK example_parse example_stringify (backendSteps ''Shop'') c"
    by (simp add: bcrypt_example_def example_manifests_ok)
  have f: "\<forall>c. map_of bcrypt_example ''frontend/package.json'' = Some c \<and> c \<noteq> [] \<longrightarrow>
      manifestOK example_parse example_stringify (frontendSteps ''Shop'') c"
    by (simp add: bcrypt_example_def example_manifests_ok)
  from second_pass_only_warns [OF b f] show ?thesis
    by (simp only: bcrypt_example_fixed bcrypt_example_imports)
qed

text \<open>
  Claim C6 fails on the code. The pass deletes three fixed keys and does not look at the
  end of a path, so of the three environment files of the example \<open>frontend/.env\<close>, whose
  path ends in \<open>.env\<close>, stays in the output with its hard-coded port, while the comment at
  the deletions says that environment files among the generated files are removed there.
\<close>

theorem env_file_kept:
  "endsWith ''frontend/.env'' ''.env'' \<and>
   map_of env_example ''frontend/.env'' = Some ''PORT=3000'' \<and>
   fst (validateAndFixFiles example_parse example_stringify env_example ''Shop'') =
     [(''frontend/.env'', ''PORT=3000'')]"
  by code_simp

text \<open>
  Claim C7 as stated fails. An \<open>import\<close> statement naming the deprecated package is left as
  it is, and without a backend manifest in the input there is none in the output. And
  when the \<open>dependencies\<close> of the backend manifest are an array, the corrected package is
  set as a named property of that array, which the serialization leaves out: the manifest
  of the output does not name it.
\<close>

theorem bcrypt_counterexample:
  "fst (validateAndFixFiles example_parse example_stringify import_example ''Shop'') =
     [(''backend/src/auth.js'', ''import bcrypt from '' @ [CHR 0x27] @ ''bcrypt'' @ [CHR 0x27] @ '';'')] \<and>
   includesStr (''import bcrypt from '' @ [CHR 0x27] @ ''bcrypt'' @ [CHR 0x27] @ '';'') ''bcrypt'' \<and>
   map_of (fst (validateAndFixFiles example_parse example_stringify import_example ''Shop''))
     ''backend/package.json'' = None \<and>
   includesStr (''const b = '' @ REQUIRE_BCRYPT_SINGLE @ '';'') ''bcrypt'' \<and>
   map_option (\<lambda>out. includesStr out ''bcryptjs'')
     (map_of (fst (validateAndFixFiles example_parse example_stringify array_example ''Shop''))
        ''backend/package.json'') = Some False"
  by code_simp

theorem bcrypt_repaired_witness:
  "\<not> includesStr (''const b = '' @ BCRYPTJS @ '';'') REQUIRE_BCRYPT_SINGLE \<and>
   \<not> includesStr (''const b = '' @ BCRYPTJS @ '';'') REQUIRE_BCRYPT_DOUBLE \<and>
   (\<exists>out deps.
      map_of (fst (validateAndFixFiles example_parse example_stringify bcrypt_example ''Shop''))
        ''backend/package.json'' = Some out \<and>
      out = example_stringify (repaired bcrypt_manifest (backendSteps ''Shop'')) \<and>
      example_parse out = Some (repaired bcrypt_manifest (backendSteps ''Shop'')) \<and>
      propOf (repaired bcrypt_manifest (backendSteps ''Shop'')) ''dependencies'' = Some deps \<and>
      truthy (propOf deps ''bcryptjs'') \<and> \<not> truthy (propOf deps ''bcrypt'')) \<and>
   includesStr (example_stringify (repaired bcrypt_manifest (backendSteps ''Shop'')))
     (quoted ''bcryptjs'' @ '': '' @ quoted ''^2.4.3'') \<and>
   map_of (fst (validateAndFixFiles example_parse example_stringify import_example ''Shop''))
     ''backend/package.json'' = None \<and>
   map_of (fst (validateAndFixFiles example_parse example_stringify bcrypt_example ''Shop''))
     ''frontend/lib/hash.ts'' =
     Some (''import bcrypt from '' @ [CHR 0x27] @ ''bcrypt'' @ [CHR 0x27] @ '';'')"
proof -
  note th = bcrypt_repaired [of example_parse example_stringify bcrypt_example "''Shop''"]
  note sources = th [THEN conjunct1, rule_format]
  note manifest = th [THEN conjunct2, THEN conjunct1, rule_format]
  note others = th [THEN conjunct2, THEN conjunct2, THEN conjunct2, rule_format]
  have m: "(''backend/src/auth.js'', ''const b = '' @ BCRYPTJS @ '';'')
      \<in> set (fst (validateAndFixFiles example_parse example_stringify bcrypt_example ''Shop''))"
    by (simp add: bcrypt_example_fixed)
  have p: "startsWith (fst (''backend/src/auth.js'', ''const b = '' @ BCRYPTJS @ '';'')) ''backend/'' \<and>
      endsWith (fst (''backend/src/auth.js'', ''const b = '' @ BCRYPTJS @ '';'')) ''.js''"
    by (simp add: startsWith_def endsWith_def)
  from sources [OF m p]
  have 1: "\<not> includesStr (''const b = '' @ BCRYPTJS @ '';'') REQUIRE_BCRYPT_SINGLE \<and>
      \<not> includesStr (''const b = '' @ BCRYPTJS @ '';'') REQUIRE_BCRYPT_DOUBLE"
    by (simp only: snd_conv simp_thms)
  have "map_of bcrypt_example ''backend/package.json'' = Some (example_stringify bcrypt_manifest) \<and>
      example_stringify bcrypt_manifest \<noteq> [] \<and>
      example_parse (example_stringify bcrypt_manifest) = Some bcrypt_manifest"
    by code_simp
  with backend_run backend_roundtrip have "map_of bcrypt_example ''backend/package.json'' =
        Some (example_stringify bcrypt_manifest) \<and>
      example_stringify bcrypt_manifest \<noteq> [] \<and>
      example_parse (example_stringify bcrypt_manifest) = Some bcrypt_manifest \<and>
      runSteps (backendSteps ''Shop'') (bcrypt_manifest, []) =
        Inr (repaired bcrypt_manifest (backendSteps ''Shop''),
          [''Added main entry point'', ''Added start script'',
           ''Added dev script'', ''Added missing dependency: bcryptjs'',
           ''Added missing dependency: cors'', ''Added missing dependency: dotenv'',
           ''Added missing dependency: express-rate-limit'',
           ''Added missing dependency: express-validator'',
           ''Added missing dependency: helmet'', ''Added missing dependency: jsonwebtoken'',
           ''Added missing dependency: pg'', ''Added missing dependency: sequelize'',
           ''Added missing dependency: uuid'', ''Added missing dependency: winston'',
           ''Removed bcrypt (using bcryptjs instead)'',
           ''Added missing devDependency: jest'', ''Added missing devDependency: supertest'']) \<and>
      example_parse (example_stringify (repaired bcrypt_manifest (backendSteps ''Shop''))) =
        Some (repaired bcrypt_manifest (backendSteps ''Shop''))"
    by (simp only: simp_thms)
  then have 2: "\<exists>out deps.
      map_of (fst (validateAndFixFiles example_parse example_stringify bcrypt_example ''Shop''))
        ''backend/package.json'' = Some out \<and>
      out = example_stringify (repaired bcrypt_manifest (backendSteps ''Shop'')) \<and>
      example_parse out = Some (repaired bcrypt_manifest (backendSteps ''Shop'')) \<and>
      propOf (repaired bcrypt_manifest (backendSteps ''Shop'')) ''dependencies'' = Some deps \<and>
      truthy (propOf deps ''bcryptjs'') \<and> \<not> truthy (propOf deps ''bcrypt'')"
    by (rule manifest)
  have 3: "includesStr (example_stringify (repaired bcrypt_manifest (backendSteps ''Shop'')))
      (quoted ''bcryptjs'' @ '': '' @ quoted ''^2.4.3'')"
    by code_simp
  have "map_of import_example ''backend/package.json'' = None"
    by (simp add: import_example_def)
  then have 4: "map_of (fst (validateAndFixFiles example_parse example_stringify import_example ''Shop''))
      ''backend/package.json'' = None"
    by (rule bcrypt_repaired [of example_parse example_stringify import_example "''Shop''",
          THEN conjunct2, THEN conjunct2, THEN conjunct1, rule_format])
  have k: "map_of bcrypt_example ''frontend/lib/hash.ts'' =
        Some (''import bcrypt from '' @ [CHR 0x27] @ ''bcrypt'' @ [CHR 0x27] @ '';'') \<and>
      ''frontend/lib/hash.ts'' \<notin> set ENV_KEYS \<and>
      ''frontend/lib/hash.ts'' \<noteq> ''backend/package.json'' \<and>
      ''frontend/lib/hash.ts'' \<noteq> ''frontend/package.json''"
    by code_simp
  have n: "startsWith ''frontend/lib/hash.ts'' ''backend/'' = False"
    by code_simp
  have 5: "map_of (fst (validateAndFixFiles example_parse example_stringify bcrypt_example ''Shop''))
      ''frontend/lib/hash.ts'' =
      Some (''import bcrypt from '' @ [CHR 0x27] @ ''bcrypt'' @ [CHR 0x27] @ '';'')"
    using others [OF k] unfolding n by (simp only: simp_thms if_False)
  from 1 2 3 4 5 show ?thesis
    by (intro conjI) (elim conjE, assumption)+
qed

section \<open>The generation run (routes/generate.js)\<close>

subsection \<open>The outside world of a run\<close>

text \<open>
  What a run meets outside the code is given by a record: the result of
  \<open>createProjectStructure\<close> (the project path and slug, or the message of the error thrown),
  the error of loading the generator module when a phase asks for it, if it cannot be
  loaded, the reply of the model to each attempt of each phase (or the message of the error
  thrown before there is a reply), \<open>JSON.parse\<close> and \<open>JSON.stringify\<close>, the error a step of
  the finalizing phase throws, if any, what \<open>testCode\<close> returns, the time stamp of a new
  port assignment and the rounded duration that the last log line prints. A reply is the
  text of its first block with the two token counts, or a first block that is not text.

  The run is asynchronous: while it waits at an \<open>await\<close> the process serves the requests
  that come in. The world says which requests of the stream route are served at each
  \<open>await\<close> of the run, in order: a client that opens the stream, and the close of a
  client's connection. Requests of the other routes are not interleaved with a run.
\<close>

datatype reply = TextReply string nat nat | OtherReply

datatype fin_step =
    SaveFile string
  | CreateBackendPackageJson
  | CreateFrontendPackageJson
  | AssignPorts
  | WriteBackendEnv
  | WriteFrontendEnv
  | SaveMetadata
  | TestCode

datatype request = Open nat | Close nat

datatype await = AwaitStructure | AwaitPhase string | AwaitStep fin_step

record world =
  w_structure :: "string + string \<times> string"
  w_import :: "string \<Rightarrow> string option"
  w_reply :: "string \<Rightarrow> nat \<Rightarrow> string + reply"
  w_parse :: "string \<Rightarrow> json option"
  w_stringify :: "json \<Rightarrow> string"
  w_fault :: "fin_step \<Rightarrow> string option"
  w_test :: test_result
  w_now :: string
  w_seconds :: nat
  w_requests :: "await \<Rightarrow> request list"

subsection \<open>One phase of the generator (ai-engine multiFileGenerator.js)\<close>

definition GENERATION_PHASES :: "string list" where
  "GENERATION_PHASES =
     [''backend'', ''frontend'', ''database'', ''infrastructure'', ''documentation'']"

definition CRITICAL_FILES :: "string \<Rightarrow> string list" where
  "CRITICAL_FILES ph =
     (if ph = ''backend'' then
        [''backend/src/server.js'', ''backend/package.json'', ''backend/src/config/index.js'',
         ''backend/src/routes/index.js'', ''backend/src/middleware/auth.js'',
         ''backend/src/middleware/errorHandler.js'']
      else if ph = ''frontend'' then
        [''frontend/app/layout.tsx'', ''frontend/package.json'', ''frontend/app/page.tsx'',
         ''frontend/tailwind.config.js'']
      else if ph = ''database'' then [''database/schema.sql'']
      else [])"

text \<open>\<open>validatePhaseFiles\<close>: a critical file is missing when \<open>files[f]\<close> is falsy.\<close>

definition validatePhaseFiles :: "string \<Rightarrow> files \<Rightarrow> bool \<times> string list" where
  "validatePhaseFiles ph fs =
     (let missing = filter (\<lambda>f. case map_of fs f of None \<Rightarrow> True | Some c \<Rightarrow> c = [])
                      (CRITICAL_FILES ph)
      in (length missing = 0, missing))"

record phase_stats =
  ps_filesGenerated :: nat
  ps_lines :: nat
  ps_inputTokens :: nat
  ps_outputTokens :: nat

text \<open>\<open>c.split("\n").length\<close>.\<close>

definition lineCount :: "string \<Rightarrow> nat" where
  "lineCount c = length (filter (\<lambda>x. x = CHR 0x0A) c) + 1"

text \<open>
  \<open>generatePhase\<close>: a reply that lacks critical files is asked for again, twice at most; an
  error is thrown on at once. The token counts stand for \<open>message.usage\<close>.
\<close>

function generatePhase :: "world \<Rightarrow> string \<Rightarrow> nat \<Rightarrow> string + files \<times> phase_stats" where
  "generatePhase w ph retryCount =
     (case w_reply w ph retryCount of
        Inl msg \<Rightarrow> Inl msg
      | Inr OtherReply \<Rightarrow> Inl ''Unexpected response type''
      | Inr (TextReply text inputTokens outputTokens) \<Rightarrow>
          (let fs = parseMultiFileResponse text
           in if \<not> fst (validatePhaseFiles ph fs) \<and> retryCount < 2
              then generatePhase w ph (retryCount + 1)
              else Inr (fs, \<lparr>ps_filesGenerated = length fs,
                             ps_lines = sum_list (map (\<lambda>e. lineCount (snd e)) fs),
                             ps_inputTokens = inputTokens,
                             ps_outputTokens = outputTokens\<rparr>)))"
  by pat_completeness auto
termination
  by (relation "measure (\<lambda>(w, ph, retryCount). 2 - retryCount)") auto

declare generatePhase.simps [simp del]

text \<open>
  \<open>generateSinglePhase\<close>, through its wrapper in the backend, which loads the generator
  first: the files of the phase after the repair pass, with the statistics taken before it.
\<close>

definition generateSinglePhase :: "world \<Rightarrow> string \<Rightarrow> string \<Rightarrow> string + files \<times> phase_stats" where
  "generateSinglePhase w ph name =
     (case w_import w ph of
        Some msg \<Rightarrow> Inl msg
      | None \<Rightarrow>
          if ph \<notin> set GENERATION_PHASES
          then Inl (''Invalid phase: '' @ ph @ ''. Valid phases: backend, frontend, '' @
                    ''database, infrastructure, documentation'')
          else (case generatePhase w ph 0 of
                  Inl msg \<Rightarrow> Inl msg
                | Inr (fs, stats) \<Rightarrow>
                    Inr (fst (validateAndFixFiles (w_parse w) (w_stringify w) fs name),
                         stats)))"

text \<open>What a phase hands to the run: an entry of \<open>phaseResults\<close> and its files, if any.\<close>

datatype phase_result = PhaseDone string phase_stats | PhaseError string string

definition threw :: "world \<Rightarrow> string \<Rightarrow> string \<Rightarrow> bool" where
  "threw w name ph \<longleftrightarrow> isl (generateSinglePhase w ph name)"

definition phaseFiles :: "world \<Rightarrow> string \<Rightarrow> string \<Rightarrow> files" where
  "phaseFiles w name ph =
     (case generateSinglePhase w ph name of Inl msg \<Rightarrow> [] | Inr (fs, stats) \<Rightarrow> fs)"

definition phaseResult :: "world \<Rightarrow> string \<Rightarrow> string \<Rightarrow> phase_result" where
  "phaseResult w name ph =
     (case generateSinglePhase w ph name of
        Inl msg \<Rightarrow> PhaseError ph msg
      | Inr (fs, stats) \<Rightarrow> PhaseDone ph stats)"

subsection \<open>The state of a run\<close>

text \<open>\<open>p.error\<close> as a condition: an empty message is falsy.\<close>

fun hasError :: "phase_result \<Rightarrow> bool" where
  "hasError (PhaseError ph msg) = (msg \<noteq> [])"
| "hasError (PhaseDone ph st) = False"

fun linesOf :: "phase_result \<Rightarrow> nat" where
  "linesOf (PhaseDone ph st) = ps_lines st"
| "linesOf (PhaseError ph msg) = 0"

text \<open>The local variables of the run, together with the state of the process.\<close>

record run =
  r_sys :: sys
  r_allFiles :: files
  r_phaseResults :: "phase_result list"
  r_projectPath :: string
  r_projectSlug :: string
  r_savedFiles :: "string list"
  r_ports :: "assignment option"
  r_testResult :: test_result

record run_result =
  rr_success :: bool
  rr_error :: "string option"
  rr_filesGenerated :: "string list"
  rr_phaseResults :: "phase_result list"

text \<open>
  A statement of the \<open>try\<close> block either throws, leaving the state as it is at that point,
  or continues. Statements run in order up to the first that throws.
\<close>

type_synonym stmt = "run \<Rightarrow> string \<times> run + run"

fun runStmts :: "stmt list \<Rightarrow> stmt" where
  "runStmts [] r = Inr r"
| "runStmts (st # sts) r = (case st r of Inl e \<Rightarrow> Inl e | Inr r' \<Rightarrow> runStmts sts r')"

text \<open>\<open>Object.assign(allFiles, result.files)\<close>.\<close>

definition objectAssign :: "files \<Rightarrow> files \<Rightarrow> files" where
  "objectAssign target source = fold (\<lambda>e t. setProp t (fst e) (snd e)) source target"

subsection \<open>Requests served while the run waits\<close>

text \<open>
  \<open>GET /api/generate/:projectId/stream\<close>: a request for a project that does not exist is
  refused; otherwise the client joins the session, which is created if there is none, and
  is sent the state of the session. The handler of \<open>close\<close> takes the client out of the
  session, if there is one.
\<close>

definition subscribe :: "sys \<Rightarrow> string \<Rightarrow> nat \<Rightarrow> sys" where
  "subscribe s pid client =
     (case projects s pid of
        None \<Rightarrow> s
      | Some project \<Rightarrow>
          (let g = (case activeGenerations s pid of
                      Some g \<Rightarrow> g
                    | None \<Rightarrow> new_generation
                                (if p_status project = GENERATING then ''generating'' else ''idle''));
               s1 = setGeneration s pid (g\<lparr>g_clients := g_clients g @ [client]\<rparr>)
           in s1\<lparr>written := written s1 @
                    [(client, EvConnected pid),
                     (client, EvState (g_phases g) (g_progress g)
                                (drop (length (g_logs g) - 50) (g_logs g)) (g_stats g)
                                (g_status g))]\<rparr>))"

definition unsubscribe :: "sys \<Rightarrow> string \<Rightarrow> nat \<Rightarrow> sys" where
  "unsubscribe s pid client =
     (case activeGenerations s pid of
        None \<Rightarrow> s
      | Some g \<Rightarrow> setGeneration s pid (g\<lparr>g_clients := filter (\<lambda>c. c \<noteq> client) (g_clients g)\<rparr>))"

fun serve :: "string \<Rightarrow> request \<Rightarrow> sys \<Rightarrow> sys" where
  "serve pid (Open client) s = subscribe s pid client"
| "serve pid (Close client) s = unsubscribe s pid client"

text \<open>The state after an \<open>await\<close> of the run: the requests of the world have been served.\<close>

definition waiting :: "world \<Rightarrow> string \<Rightarrow> await \<Rightarrow> sys \<Rightarrow> sys" where
  "waiting w pid a s = fold (serve pid) (w_requests w a) s"

subsection \<open>Setup and the content phases\<close>

text \<open>Log messages are given without their emoji prefix.\<close>

definition setupPhase :: "world \<Rightarrow> string \<Rightarrow> stmt" where
  "setupPhase w pid r =
     (let s1 = updatePhase (r_sys r) pid ''setup'' InProgress 0;
          s2 = waiting w pid AwaitStructure
                 (addLog s1 pid ''Creating project folder structure...'' Info)
      in (case w_structure w of
            Inl msg \<Rightarrow> Inl (msg, r\<lparr>r_sys := s2\<rparr>)
          | Inr (path, slug) \<Rightarrow>
              (let s3 = addLog s2 pid (''Project path: '' @ path) Info;
                   s4 = updatePhase s3 pid ''setup'' Completed 0
               in Inr (r\<lparr>r_sys := s4, r_projectPath := path, r_projectSlug := slug\<rparr>))))"

text \<open>
  The five content phases are five blocks of the same shape. They differ in the phase id,
  the log lines, the critical file they look for and the statistics they pass to
  \<open>updateStats\<close>, which are given the number of files of the phase, the number of files
  accumulated, the statistics of the phase and the phase results so far.
\<close>

record phase_desc =
  d_id :: string
  d_title :: string
  d_logs :: "(string \<times> log_type) list"
  d_critical :: "(string \<times> string) option"
  d_stats :: "nat \<Rightarrow> nat \<Rightarrow> phase_stats \<Rightarrow> phase_result list \<Rightarrow> gen_stats \<Rightarrow> gen_stats"

definition backendPhase :: phase_desc where
  "backendPhase =
     \<lparr>d_id = ''backend'', d_title = ''Backend'',
      d_logs = [(''Generating backend API (Phase 1/5)...'', Thinking),
                (''This may take 30-60 seconds...'', Info)],
      d_critical = Some (''server.js'', ''Warning: server.js not found in backend''),
      d_stats = (\<lambda>n total st results g.
         g\<lparr>backendFiles := n, totalFiles := total, totalLines := ps_lines st\<rparr>)\<rparr>"

definition frontendPhase :: phase_desc where
  "frontendPhase =
     \<lparr>d_id = ''frontend'', d_title = ''Frontend'',
      d_logs = [(''Generating frontend components (Phase 2/5)...'', Thinking),
                (''This may take 30-60 seconds...'', Info)],
      d_critical = Some (''layout.tsx'', ''Warning: layout.tsx not found in frontend''),
      d_stats = (\<lambda>n total st results g.
         g\<lparr>frontendFiles := n, totalFiles := total,
           totalLines := sum_list (map linesOf results)\<rparr>)\<rparr>"

definition databasePhase :: phase_desc where
  "databasePhase =
     \<lparr>d_id = ''database'', d_title = ''Database'',
      d_logs = [(''Generating database schema (Phase 3/5)...'', Thinking)],
      d_critical = None,
      d_stats = (\<lambda>n total st results g. g\<lparr>databaseFiles := n, totalFiles := total\<rparr>)\<rparr>"

definition infrastructurePhase :: phase_desc where
  "infrastructurePhase =
     \<lparr>d_id = ''infrastructure'', d_title = ''Infrastructure'',
      d_logs = [(''Setting up infrastructure (Phase 4/5)...'', Thinking)],
      d_critical = None,
      d_stats = (\<lambda>n total st results g. g\<lparr>infraFiles := n, totalFiles := total\<rparr>)\<rparr>"

definition documentationPhase :: phase_desc where
  "documentationPhase =
     \<lparr>d_id = ''documentation'', d_title = ''Documentation'',
      d_logs = [(''Writing documentation (Phase 5/5)...'', Thinking)],
      d_critical = None,
      d_stats = (\<lambda>n total st results g. g\<lparr>docFiles := n, totalFiles := total\<rparr>)\<rparr>"

definition contentPhases :: "phase_desc list" where
  "contentPhases =
     [backendPhase, frontendPhase, databasePhase, infrastructurePhase, documentationPhase]"

text \<open>One block: the inner \<open>try\<close> and its \<open>catch\<close>, which never rethrows.\<close>

definition contentPhase :: "world \<Rightarrow> string \<Rightarrow> string \<Rightarrow> phase_desc \<Rightarrow> run \<Rightarrow> run" where
  "contentPhase w pid name d r =
     (let s1 = updatePhase (r_sys r) pid (d_id d) InProgress 0;
          s2 = waiting w pid (AwaitPhase (d_id d))
                 (fold (\<lambda>l s. addLog s pid (fst l) (snd l)) (d_logs d) s1)
      in (case generateSinglePhase w (d_id d) name of
            Inr (fs, st) \<Rightarrow>
              (let n = length fs;
                   allFiles = objectAssign (r_allFiles r) fs;
                   results = r_phaseResults r @ [PhaseDone (d_id d) st];
                   s3 = addLog s2 pid (d_title d @ '': '' @ showNat n @ '' files generated'') Success;
                   s4 = (case d_critical d of
                           None \<Rightarrow> s3
                         | Some (needle, warning) \<Rightarrow>
                             if list_ex (\<lambda>f. includesStr f needle) (map fst fs) then s3
                             else addLog s3 pid warning Warning);
                   s5 = updateStats s4 pid (d_stats d n (length allFiles) st results);
                   s6 = updatePhase s5 pid (d_id d) Completed n
               in r\<lparr>r_sys := s6, r_allFiles := allFiles, r_phaseResults := results\<rparr>)
          | Inl msg \<Rightarrow>
              (let s3 = addLog s2 pid (d_title d @ '' generation failed: '' @ msg) Error;
                   s4 = updatePhase s3 pid (d_id d) Failed 0
               in r\<lparr>r_sys := s4,
                    r_phaseResults := r_phaseResults r @ [PhaseError (d_id d) msg]\<rparr>)))"

definition contentStmt :: "world \<Rightarrow> string \<Rightarrow> string \<Rightarrow> phase_desc \<Rightarrow> stmt" where
  "contentStmt w pid name d r = Inr (contentPhase w pid name d r)"

subsection \<open>Finalizing\<close>

definition beginFinalizing :: "string \<Rightarrow> stmt" where
  "beginFinalizing pid r =
     (let s1 = updatePhase (r_sys r) pid ''finalizing'' InProgress 0;
          s2 = addLog s1 pid ''Finalizing project...'' Thinking
      in if length (r_allFiles r) = 0
         then Inl (''No files were generated across all phases'', r\<lparr>r_sys := s2\<rparr>)
         else Inr (r\<lparr>r_sys := addLog s2 pid
                     (''Saving '' @ showNat (length (r_allFiles r)) @ '' generated files...'')
                     Info\<rparr>))"

text \<open>
  A step that may throw: the state is handed on unless the world says the step fails. A
  step that is awaited throws or returns after the requests have been served.
\<close>

definition attempt :: "world \<Rightarrow> fin_step \<Rightarrow> (run \<Rightarrow> run) \<Rightarrow> stmt" where
  "attempt w step f r = (case w_fault w step of Some msg \<Rightarrow> Inl (msg, r) | None \<Rightarrow> Inr (f r))"

definition awaited :: "world \<Rightarrow> string \<Rightarrow> fin_step \<Rightarrow> (run \<Rightarrow> run) \<Rightarrow> stmt" where
  "awaited w pid step f r =
     attempt w step f (r\<lparr>r_sys := waiting w pid (AwaitStep step) (r_sys r)\<rparr>)"

definition writeDisk :: "string \<Rightarrow> string \<Rightarrow> file_body \<Rightarrow> run \<Rightarrow> run" where
  "writeDisk dir rel body r =
     r\<lparr>r_sys := (r_sys r)\<lparr>disk := (disk (r_sys r))((dir, rel) \<mapsto> body)\<rparr>\<rparr>"

definition logRun :: "string \<Rightarrow> string \<Rightarrow> log_type \<Rightarrow> run \<Rightarrow> run" where
  "logRun pid message ty r = r\<lparr>r_sys := addLog (r_sys r) pid message ty\<rparr>"

text \<open>
  \<open>saveMultipleFiles\<close>: the files are written one after the other; a write that throws
  leaves the earlier ones on disk. The list of saved paths is complete only at the end.
\<close>

definition saveMultipleFiles :: "world \<Rightarrow> string \<Rightarrow> stmt" where
  "saveMultipleFiles w pid r =
     (case runStmts
             (map (\<lambda>e. awaited w pid (SaveFile (fst e))
                          (writeDisk (r_projectPath r) (fst e) (Text (snd e))))
                  (r_allFiles r)) r of
        Inl e \<Rightarrow> Inl e
      | Inr r' \<Rightarrow> Inr (r'\<lparr>r_savedFiles := map fst (r_allFiles r)\<rparr>))"

definition ensureBackendPackageJson :: "world \<Rightarrow> string \<Rightarrow> string \<Rightarrow> stmt" where
  "ensureBackendPackageJson w pid name r =
     (if list_ex (\<lambda>f. f = ''backend/package.json'') (map fst (r_allFiles r)) then Inr r
      else awaited w pid CreateBackendPackageJson
             (\<lambda>r. logRun pid ''Created backend/package.json'' Info
                    ((writeDisk (r_projectPath r) ''backend/package.json''
                        (BackendPackageJson name) r)
                       \<lparr>r_savedFiles := r_savedFiles r @ [''backend/package.json'']\<rparr>)) r)"

definition ensureFrontendPackageJson :: "world \<Rightarrow> string \<Rightarrow> string \<Rightarrow> stmt" where
  "ensureFrontendPackageJson w pid name r =
     (if list_ex (\<lambda>f. f = ''frontend/package.json'') (map fst (r_allFiles r)) then Inr r
      else awaited w pid CreateFrontendPackageJson
             (\<lambda>r. logRun pid ''Created frontend/package.json'' Info
                    ((writeDisk (r_projectPath r) ''frontend/package.json''
                        (FrontendPackageJson name) r)
                       \<lparr>r_savedFiles := r_savedFiles r @ [''frontend/package.json'']\<rparr>)) r)"

definition assignPortsStmt :: "world \<Rightarrow> string \<Rightarrow> string \<Rightarrow> stmt" where
  "assignPortsStmt w pid name r =
     attempt w AssignPorts
       (\<lambda>r. (case assignPorts (portAssignments (r_sys r)) pid name (w_now w) of
                (a, store) \<Rightarrow> r\<lparr>r_sys := (r_sys r)\<lparr>portAssignments := store\<rparr>,
                                 r_ports := Some a\<rparr>))
       (logRun pid ''Assigning ports for deployment...'' Info r)"

text \<open>
  The two environment files. After \<open>assignPorts\<close> there are ports; the model writes nothing
  if there were none.
\<close>

definition writeEnv :: "world \<Rightarrow> string \<Rightarrow> string \<Rightarrow> stmt list" where
  "writeEnv w pid name =
     [awaited w pid WriteBackendEnv
        (\<lambda>r. case r_ports r of
                None \<Rightarrow> r
              | Some a \<Rightarrow> writeDisk (r_projectPath r) ''backend/.env'' (BackendEnv a name pid) r),
      awaited w pid WriteFrontendEnv
        (\<lambda>r. case r_ports r of
                None \<Rightarrow> r
              | Some a \<Rightarrow> writeDisk (r_projectPath r) ''frontend/.env.local'' (FrontendEnv a) r),
      (\<lambda>r. Inr (case r_ports r of
                   None \<Rightarrow> r
                 | Some a \<Rightarrow>
                     logRun pid (''Ports assigned: Frontend '' @ showNat (frontend a) @
                                 '', Backend '' @ showNat (backend a)) Success
                       (r\<lparr>r_savedFiles := r_savedFiles r @
                             [''backend/.env'', ''frontend/.env.local'']\<rparr>)))]"

definition saveMetadataStmt :: "world \<Rightarrow> string \<Rightarrow> stmt" where
  "saveMetadataStmt w pid =
     awaited w pid SaveMetadata
       (\<lambda>r. (writeDisk (r_projectPath r) ''project.json''
                (Metadata (r_projectSlug r) (r_savedFiles r)) r)
             \<lparr>r_savedFiles := r_savedFiles r @ [''project.json'']\<rparr>)"

definition markTesting :: "string \<Rightarrow> stmt" where
  "markTesting pid r =
     Inr (r\<lparr>r_sys := updateProject (r_sys r) pid
                (\<lambda>p. p\<lparr>p_status := TESTING, p_slug := Some (r_projectSlug r),
                        p_outputPath := Some (r_projectPath r),
                        p_generatedFiles := r_savedFiles r, p_ports := r_ports r\<rparr>)\<rparr>)"

definition isServerFile :: "string \<Rightarrow> bool" where
  "isServerFile f \<longleftrightarrow> endsWith f ''server.js'' \<or> includesStr f ''backend/src/server.js''"

definition errorText :: "test_result \<Rightarrow> string" where
  "errorText t = (case t_error t of None \<Rightarrow> ''undefined'' | Some e \<Rightarrow> e)"

definition smokeTest :: "world \<Rightarrow> string \<Rightarrow> stmt" where
  "smokeTest w pid r =
     (case find isServerFile (r_savedFiles r) of
        None \<Rightarrow>
          Inr (logRun pid ''No server.js found, skipping code validation'' Info
                 (r\<lparr>r_testResult := \<lparr>t_success = True, t_error = None\<rparr>\<rparr>))
      | Some serverFile \<Rightarrow>
          awaited w pid TestCode
            (\<lambda>r. if t_success (w_test w)
                  then logRun pid ''Code validation passed'' Success
                         (r\<lparr>r_testResult := w_test w\<rparr>)
                  else logRun pid (''Code validation warning: '' @ errorText (w_test w)) Warning
                         (r\<lparr>r_testResult := w_test w\<rparr>))
            (logRun pid ''Running tests on generated code...'' Thinking r))"

definition finishFinalizing :: "string \<Rightarrow> stmt" where
  "finishFinalizing pid r =
     Inr (r\<lparr>r_sys := updatePhase (r_sys r) pid ''finalizing'' Completed 0\<rparr>)"

subsection \<open>The run\<close>

text \<open>
  The statements of the \<open>try\<close> block up to the finalizing phase, and those of the
  finalizing phase up to the last one that may throw, before and after the files are saved.
\<close>

definition generating :: "world \<Rightarrow> string \<Rightarrow> string \<Rightarrow> stmt list" where
  "generating w pid name = setupPhase w pid # map (contentStmt w pid name) contentPhases"

definition afterSaving :: "world \<Rightarrow> string \<Rightarrow> string \<Rightarrow> stmt list" where
  "afterSaving w pid name =
     [ensureBackendPackageJson w pid name, ensureFrontendPackageJson w pid name,
      assignPortsStmt w pid name] @
     writeEnv w pid name @
     [saveMetadataStmt w pid, markTesting pid, smokeTest w pid, finishFinalizing pid]"

definition finalizing :: "world \<Rightarrow> string \<Rightarrow> string \<Rightarrow> stmt list" where
  "finalizing w pid name = beginFinalizing pid # saveMultipleFiles w pid # afterSaving w pid name"

definition tryBlock :: "world \<Rightarrow> string \<Rightarrow> string \<Rightarrow> stmt list" where
  "tryBlock w pid name = generating w pid name @ finalizing w pid name"

text \<open>The final status, from the phase results and the test result.\<close>

definition finalStatus :: "phase_result list \<Rightarrow> test_result \<Rightarrow> string" where
  "finalStatus phaseResults testResult =
     (let failedPhases = filter hasError phaseResults
      in if length failedPhases = 0 \<and> t_success testResult then DEPLOYED
         else if length failedPhases = length phaseResults then FAILED
         else DEPLOYED)"

text \<open>The end of the \<open>try\<close> block, after the last statement that may throw.\<close>

definition finishRun :: "world \<Rightarrow> string \<Rightarrow> run \<Rightarrow> run_result \<times> sys" where
  "finishRun w pid r =
     (let failed = length (filter hasError (r_phaseResults r));
          status = finalStatus (r_phaseResults r) (r_testResult r);
          s1 = updateProject (r_sys r) pid
                 (\<lambda>p. p\<lparr>p_status := status, p_testResults := Some (r_testResult r),
                         p_error := (if failed > 0
                                     then Some (showNat failed @ '' phase(s) had errors'')
                                     else None)\<rparr>);
          s2 = addLog s1 pid (''Project generated in '' @ showNat (w_seconds w) @ ''s!'') Success;
          s3 = addLog s2 pid
                 (''Total: '' @ showNat (length (r_savedFiles r)) @ '' files, '' @
                  showNat (sum_list (map linesOf (r_phaseResults r))) @ '' lines of code'')
                 Success;
          s4 = (if failed > 0
                then addLog s3 pid
                       (showNat failed @ '' phase(s) had errors and may need regeneration'')
                       Warning
                else s3);
          s5 = sendProgressUpdate s4 pid (EvComplete (status = DEPLOYED) (r_savedFiles r));
          s6 = s5\<lparr>timers := timers s5 @ [pid]\<rparr>
      in (\<lparr>rr_success = (status = DEPLOYED), rr_error = None,
           rr_filesGenerated = r_savedFiles r, rr_phaseResults = r_phaseResults r\<rparr>, s6))"

text \<open>The outer \<open>catch\<close>.\<close>

definition failRun :: "string \<Rightarrow> string \<Rightarrow> sys \<Rightarrow> run_result \<times> sys" where
  "failRun pid msg s =
     (let s1 = addLog s pid (''Error: '' @ msg) Error;
          s2 = updateProject s1 pid (\<lambda>p. p\<lparr>p_status := FAILED, p_error := Some msg\<rparr>);
          s3 = sendProgressUpdate s2 pid (EvError msg);
          s4 = s3\<lparr>activeGenerations := (activeGenerations s3)(pid := None)\<rparr>
      in (\<lparr>rr_success = False, rr_error = Some msg, rr_filesGenerated = [],
           rr_phaseResults = []\<rparr>, s4))"

definition initialRun :: "sys \<Rightarrow> run" where
  "initialRun s =
     \<lparr>r_sys = s, r_allFiles = [], r_phaseResults = [], r_projectPath = [], r_projectSlug = [],
      r_savedFiles = [], r_ports = None,
      r_testResult = \<lparr>t_success = True, t_error = None\<rparr>\<rparr>"

definition runBatchGeneration :: "world \<Rightarrow> string \<Rightarrow> string \<Rightarrow> sys \<Rightarrow> run_result \<times> sys" where
  "runBatchGeneration w pid name s =
     (case runStmts (tryBlock w pid name) (initialRun s) of
        Inl (msg, r) \<Rightarrow> failRun pid msg (r_sys r)
      | Inr r \<Rightarrow> finishRun w pid r)"

text \<open>
  The handler that starts a run: \<open>POST /api/generate\<close> up to the call of
  \<open>runBatchGeneration\<close>. A request that is refused leaves the state alone.
\<close>

definition startGeneration :: "sys \<Rightarrow> string \<Rightarrow> sys" where
  "startGeneration s pid =
     (case projects s pid of
        None \<Rightarrow> s
      | Some project \<Rightarrow>
          if p_status project = GENERATING then s
          else setGeneration (updateProject s pid (\<lambda>p. p\<lparr>p_status := GENERATING\<rparr>)) pid
                 (new_generation ''generating''))"

subsection \<open>What logging and progress updates leave alone\<close>

definition clientsOf :: "sys \<Rightarrow> string \<Rightarrow> nat list" where
  "clientsOf s pid = (case activeGenerations s pid of None \<Rightarrow> [] | Some g \<Rightarrow> g_clients g)"

definition phaseStatus :: "sys \<Rightarrow> string \<Rightarrow> string \<Rightarrow> phase_status option" where
  "phaseStatus s pid ph = map_option ph_status (find (\<lambda>p. ph_id p = ph) (phasesOf s pid))"

text \<open>
  What a request does to the list of clients of a session, given whether the project
  exists.
\<close>

fun joinLeave :: "bool \<Rightarrow> request \<Rightarrow> nat list \<Rightarrow> nat list" where
  "joinLeave known (Open c) cs = (if known then cs @ [c] else cs)"
| "joinLeave known (Close c) cs = filter (\<lambda>x. x \<noteq> c) cs"

text \<open>
  \<open>tracked X reqs pid s s'\<close>: from \<open>s\<close> to \<open>s'\<close> the requests \<open>reqs\<close> have been served and
  nothing else has changed but the log, the statistics and the progress of the session of
  \<open>pid\<close>, where only phases in \<open>X\<close> have changed their status, and events have been written.
\<close>

definition tracked :: "string set \<Rightarrow> request list \<Rightarrow> string \<Rightarrow> sys \<Rightarrow> sys \<Rightarrow> bool" where
  "tracked X reqs pid s s' \<longleftrightarrow>
     projects s' = projects s \<and> portAssignments s' = portAssignments s \<and>
     timers s' = timers s \<and> disk s' = disk s \<and>
     clientsOf s' pid = fold (joinLeave (projects s pid \<noteq> None)) reqs (clientsOf s pid) \<and>
     (activeGenerations s pid \<noteq> None \<longrightarrow>
        activeGenerations s' pid \<noteq> None \<and>
        map ph_id (phasesOf s' pid) = map ph_id (phasesOf s pid) \<and>
        (\<forall>ph. ph \<notin> X \<longrightarrow> phaseStatus s' pid ph = phaseStatus s pid ph))"

lemma tracked_refl: "tracked X [] pid s s"
  by (simp add: tracked_def)

lemma tracked_trans:
  "tracked X reqs pid s s' \<Longrightarrow> tracked X reqs' pid s' s'' \<Longrightarrow> tracked X (reqs @ reqs') pid s s''"
  by (simp add: tracked_def)

lemma tracked_step:
  "tracked X reqs pid s s' \<Longrightarrow> tracked X [] pid s' s'' \<Longrightarrow> tracked X reqs pid s s''"
  by (simp add: tracked_def)

lemma tracked_mono: "tracked X reqs pid s s' \<Longrightarrow> X \<subseteq> Y \<Longrightarrow> tracked Y reqs pid s s'"
  by (auto simp: tracked_def)

lemma phase_in_session: "ph \<in> set (map ph_id (phasesOf s pid)) \<Longrightarrow> activeGenerations s pid \<noteq> None"
  by (cases "activeGenerations s pid") (simp_all add: phasesOf_def)

lemma setPhase_ids: "map ph_id (setPhase ps i st n) = map ph_id ps"
  by (induction ps) auto

lemma find_setPhase_other:
  "i \<noteq> ph \<Longrightarrow> map_option ph_status (find (\<lambda>p. ph_id p = ph) (setPhase ps i st n)) =
     map_option ph_status (find (\<lambda>p. ph_id p = ph) ps)"
  by (induction ps) auto

lemma find_setPhase_same:
  "ph \<in> set (map ph_id ps) \<Longrightarrow>
   map_option ph_status (find (\<lambda>p. ph_id p = ph) (setPhase ps ph st n)) = Some st"
  by (induction ps) auto

lemma phasesOf_updatePhase:
  "phasesOf (updatePhase s pid i st n) pid =
     (if i \<in> set (map ph_id (phasesOf s pid)) then setPhase (phasesOf s pid) i st n
      else phasesOf s pid)"
proof (cases "activeGenerations s pid")
  case None
  then show ?thesis by (simp add: phasesOf_def updatePhase_def)
next
  case (Some g)
  show ?thesis
  proof (cases "find (\<lambda>p. ph_id p = i) (g_phases g)")
    case None
    then have "i \<notin> set (map ph_id (g_phases g))"
      by (auto simp: find_None_iff)
    with None Some show ?thesis by (simp add: phasesOf_def updatePhase_def)
  next
    case (Some p)
    then have "i \<in> set (map ph_id (g_phases g))"
      by (auto simp: find_Some_iff)
    with Some \<open>activeGenerations s pid = Some g\<close> show ?thesis
      by (simp add: phasesOf_def updatePhase_def Let_def sendProgressUpdate_def
          setGeneration_def)
  qed
qed

lemma phaseStatus_updatePhase_same:
  "ph \<in> set (map ph_id (phasesOf s pid)) \<Longrightarrow>
   phaseStatus (updatePhase s pid ph st n) pid ph = Some st"
  by (simp add: phaseStatus_def phasesOf_updatePhase find_setPhase_same)

lemma addLog_tracked: "tracked X [] pid s (addLog s pid message ty)"
  by (simp add: tracked_def clientsOf_def phaseStatus_def phasesOf_def addLog_def
      sendProgressUpdate_def setGeneration_def split: option.splits)

lemma updateStats_tracked: "tracked X [] pid s (updateStats s pid updates)"
  by (simp add: tracked_def clientsOf_def phaseStatus_def phasesOf_def updateStats_def
      sendProgressUpdate_def setGeneration_def split: option.splits)

lemma updatePhase_tracked: "i \<in> X \<Longrightarrow> tracked X [] pid s (updatePhase s pid i st n)"
proof -
  assume i: "i \<in> X"
  have 1: "projects (updatePhase s pid i st n) = projects s \<and>
      portAssignments (updatePhase s pid i st n) = portAssignments s \<and>
      timers (updatePhase s pid i st n) = timers s \<and>
      disk (updatePhase s pid i st n) = disk s \<and>
      clientsOf (updatePhase s pid i st n) pid = clientsOf s pid \<and>
      (activeGenerations (updatePhase s pid i st n) pid = None \<longleftrightarrow>
         activeGenerations s pid = None)"
    by (simp add: clientsOf_def updatePhase_def sendProgressUpdate_def setGeneration_def
        Let_def split: option.splits)
  have 2: "map ph_id (phasesOf (updatePhase s pid i st n) pid) = map ph_id (phasesOf s pid)"
    by (simp add: phasesOf_updatePhase setPhase_ids)
  have 3: "phaseStatus (updatePhase s pid i st n) pid ph = phaseStatus s pid ph" if "ph \<notin> X" for ph
  proof -
    from that i have "i \<noteq> ph" by auto
    then show ?thesis
      by (simp add: phaseStatus_def phasesOf_updatePhase find_setPhase_other)
  qed
  from 1 2 3 show ?thesis
    by (simp add: tracked_def)
qed

text \<open>A request of the stream route, and the requests served at an \<open>await\<close>.\<close>

lemma subscribe_tracked: "tracked X [Open c] pid s (subscribe s pid c)"
  by (auto simp: tracked_def subscribe_def clientsOf_def phaseStatus_def phasesOf_def
      setGeneration_def new_generation_def Let_def split: option.splits)

lemma unsubscribe_tracked: "tracked X [Close c] pid s (unsubscribe s pid c)"
  by (auto simp: tracked_def unsubscribe_def clientsOf_def phaseStatus_def phasesOf_def
      setGeneration_def split: option.splits)

lemma serve_tracked: "tracked X [q] pid s (serve pid q s)"
  by (cases q) (simp_all add: subscribe_tracked unsubscribe_tracked)

lemma served_tracked: "tracked X reqs pid s (fold (serve pid) reqs s)"
proof (induction reqs arbitrary: s)
  case Nil
  show ?case by (simp add: tracked_refl)
next
  case (Cons q reqs)
  have "tracked X ([q] @ reqs) pid s (fold (serve pid) reqs (serve pid q s))"
    using serve_tracked Cons.IH by (rule tracked_trans)
  then show ?case by simp
qed

lemma waiting_tracked: "tracked X (w_requests w a) pid s (waiting w pid a s)"
  unfolding waiting_def by (rule served_tracked)

text \<open>The same, for an update that follows others.\<close>

lemma tracked_addLog:
  "tracked X reqs pid s s' \<Longrightarrow> tracked X reqs pid s (addLog s' pid message ty)"
  by (erule tracked_step) (rule addLog_tracked)

lemma tracked_updateStats:
  "tracked X reqs pid s s' \<Longrightarrow> tracked X reqs pid s (updateStats s' pid updates)"
  by (erule tracked_step) (rule updateStats_tracked)

lemma tracked_updatePhase:
  "i \<in> X \<Longrightarrow> tracked X reqs pid s s' \<Longrightarrow> tracked X reqs pid s (updatePhase s' pid i st n)"
  by (erule tracked_step) (erule updatePhase_tracked)

lemma tracked_fold_addLog:
  "tracked X reqs pid s s' \<Longrightarrow>
   tracked X reqs pid s (fold (\<lambda>l s. addLog s pid (fst l) (snd l)) ls s')"
  by (induction ls arbitrary: s') (simp_all add: tracked_addLog)

lemma tracked_waiting:
  "tracked X [] pid s s' \<Longrightarrow> tracked X (w_requests w a) pid s (waiting w pid a s')"
proof -
  assume "tracked X [] pid s s'"
  then have "tracked X ([] @ w_requests w a) pid s (waiting w pid a s')"
    using waiting_tracked by (rule tracked_trans)
  then show ?thesis by simp
qed

lemmas tracked_intros =
  tracked_refl tracked_waiting tracked_addLog tracked_updateStats tracked_updatePhase
  tracked_fold_addLog

subsection \<open>Setup and the content phases, step by step\<close>

lemma objectAssign_Nil [simp]: "objectAssign acc [] = acc"
  by (simp add: objectAssign_def)

lemma tracked_ids:
  "tracked X reqs pid s s' \<Longrightarrow> ph \<in> set (map ph_id (phasesOf s pid)) \<Longrightarrow>
   map ph_id (phasesOf s' pid) = map ph_id (phasesOf s pid)"
  by (frule phase_in_session) (simp add: tracked_def)

text \<open>The requests served while the content phases are awaited.\<close>

definition phaseRequests :: "world \<Rightarrow> string list \<Rightarrow> request list" where
  "phaseRequests w phs = concat (map (\<lambda>ph. w_requests w (AwaitPhase ph)) phs)"

lemma contentPhase_eq:
  "\<exists>s'. tracked {d_id d} (w_requests w (AwaitPhase (d_id d))) pid (r_sys r) s' \<and>
        (d_id d \<in> set (map ph_id (phasesOf (r_sys r) pid)) \<longrightarrow>
           phaseStatus s' pid (d_id d) =
             Some (if threw w name (d_id d) then Failed else Completed)) \<and>
        contentPhase w pid name d r =
          r\<lparr>r_sys := s',
            r_allFiles := objectAssign (r_allFiles r) (phaseFiles w name (d_id d)),
            r_phaseResults := r_phaseResults r @ [phaseResult w name (d_id d)]\<rparr>"
proof (cases "generateSinglePhase w (d_id d) name")
  case (Inl msg)
  define s3 where "s3 = addLog (waiting w pid (AwaitPhase (d_id d))
      (fold (\<lambda>l s. addLog s pid (fst l) (snd l)) (d_logs d)
      (updatePhase (r_sys r) pid (d_id d) InProgress 0))) pid
      (d_title d @ '' generation failed: '' @ msg) Error"
  have t3: "tracked {d_id d} (w_requests w (AwaitPhase (d_id d))) pid (r_sys r) s3"
    unfolding s3_def by (intro tracked_intros) simp
  then have t4: "tracked {d_id d} (w_requests w (AwaitPhase (d_id d))) pid (r_sys r) (updatePhase s3 pid (d_id d) Failed 0)"
    by (intro tracked_intros) simp_all
  have st: "phaseStatus (updatePhase s3 pid (d_id d) Failed 0) pid (d_id d) = Some Failed"
    if "d_id d \<in> set (map ph_id (phasesOf (r_sys r) pid))"
    using that tracked_ids [OF t3 that] by (simp add: phaseStatus_updatePhase_same)
  have eq: "contentPhase w pid name d r =
      r\<lparr>r_sys := updatePhase s3 pid (d_id d) Failed 0,
        r_allFiles := objectAssign (r_allFiles r) (phaseFiles w name (d_id d)),
        r_phaseResults := r_phaseResults r @ [phaseResult w name (d_id d)]\<rparr>"
    using Inl by (simp add: contentPhase_def Let_def s3_def phaseFiles_def phaseResult_def)
  from Inl have "threw w name (d_id d)"
    by (simp add: threw_def)
  with t4 st eq show ?thesis
    by (intro exI [of _ "updatePhase s3 pid (d_id d) Failed 0"]) simp
next
  case (Inr res)
  obtain fs stats where res: "res = (fs, stats)"
    by (cases res)
  define s5 where "s5 = updateStats
      (case d_critical d of
         None \<Rightarrow> addLog (waiting w pid (AwaitPhase (d_id d))
             (fold (\<lambda>l s. addLog s pid (fst l) (snd l)) (d_logs d)
             (updatePhase (r_sys r) pid (d_id d) InProgress 0))) pid
             (d_title d @ '': '' @ showNat (length fs) @ '' files generated'') Success
       | Some (needle, warning) \<Rightarrow>
           if list_ex (\<lambda>f. includesStr f needle) (map fst fs)
           then addLog (waiting w pid (AwaitPhase (d_id d))
             (fold (\<lambda>l s. addLog s pid (fst l) (snd l)) (d_logs d)
             (updatePhase (r_sys r) pid (d_id d) InProgress 0))) pid
             (d_title d @ '': '' @ showNat (length fs) @ '' files generated'') Success
           else addLog (addLog (waiting w pid (AwaitPhase (d_id d))
             (fold (\<lambda>l s. addLog s pid (fst l) (snd l)) (d_logs d)
             (updatePhase (r_sys r) pid (d_id d) InProgress 0))) pid
             (d_title d @ '': '' @ showNat (length fs) @ '' files generated'') Success)
             pid warning Warning)
      pid (d_stats d (length fs) (length (objectAssign (r_allFiles r) fs)) stats
             (r_phaseResults r @ [PhaseDone (d_id d) stats]))"
  have t5: "tracked {d_id d} (w_requests w (AwaitPhase (d_id d))) pid (r_sys r) s5"
    unfolding s5_def
    by (cases "d_critical d") (auto intro!: tracked_intros split: prod.splits)
  then have t6: "tracked {d_id d} (w_requests w (AwaitPhase (d_id d))) pid (r_sys r) (updatePhase s5 pid (d_id d) Completed (length fs))"
    by (intro tracked_intros) simp_all
  have st: "phaseStatus (updatePhase s5 pid (d_id d) Completed (length fs)) pid (d_id d) =
      Some Completed"
    if "d_id d \<in> set (map ph_id (phasesOf (r_sys r) pid))"
    using that tracked_ids [OF t5 that] by (simp add: phaseStatus_updatePhase_same)
  have eq: "contentPhase w pid name d r =
      r\<lparr>r_sys := updatePhase s5 pid (d_id d) Completed (length fs),
        r_allFiles := objectAssign (r_allFiles r) (phaseFiles w name (d_id d)),
        r_phaseResults := r_phaseResults r @ [phaseResult w name (d_id d)]\<rparr>"
    unfolding contentPhase_def Let_def s5_def phaseFiles_def phaseResult_def
    by (simp only: Inr res sum.case prod.case)
  from Inr have "\<not> threw w name (d_id d)"
    by (simp add: threw_def)
  with t6 st eq show ?thesis
    by (intro exI [of _ "updatePhase s5 pid (d_id d) Completed (length fs)"]) simp
qed


lemma runStmts_append:
  "runStmts (xs @ ys) r = (case runStmts xs r of Inl e \<Rightarrow> Inl e | Inr r' \<Rightarrow> runStmts ys r')"
  by (induction xs arbitrary: r) (simp_all split: sum.splits)

lemma contentPhases_run:
  "distinct (map d_id ds) \<Longrightarrow>
   \<exists>s'. tracked (set (map d_id ds)) (phaseRequests w (map d_id ds)) pid (r_sys r) s' \<and>
        (\<forall>ph \<in> set (map d_id ds). ph \<in> set (map ph_id (phasesOf (r_sys r) pid)) \<longrightarrow>
           phaseStatus s' pid ph = Some (if threw w name ph then Failed else Completed)) \<and>
        runStmts (map (contentStmt w pid name) ds) r =
          Inr (r\<lparr>r_sys := s',
                 r_allFiles := fold (\<lambda>ph acc. objectAssign acc (phaseFiles w name ph))
                                 (map d_id ds) (r_allFiles r),
                 r_phaseResults := r_phaseResults r @ map (phaseResult w name) (map d_id ds)\<rparr>)"
proof (induction ds arbitrary: r)
  case Nil
  show ?case
    by (intro exI [of _ "r_sys r"]) (simp add: tracked_refl phaseRequests_def)
next
  case (Cons d ds)
  let ?ids = "set (map d_id (d # ds))"
  obtain s1 where t1: "tracked {d_id d} (w_requests w (AwaitPhase (d_id d))) pid (r_sys r) s1"
    and st1: "d_id d \<in> set (map ph_id (phasesOf (r_sys r) pid)) \<Longrightarrow>
        phaseStatus s1 pid (d_id d) = Some (if threw w name (d_id d) then Failed else Completed)"
    and eq1: "contentPhase w pid name d r =
        r\<lparr>r_sys := s1,
          r_allFiles := objectAssign (r_allFiles r) (phaseFiles w name (d_id d)),
          r_phaseResults := r_phaseResults r @ [phaseResult w name (d_id d)]\<rparr>"
    using contentPhase_eq [where d = d and pid = pid and r = r and w = w and name = name] by blast
  define r1 where "r1 = contentPhase w pid name d r"
  from Cons.prems have dist: "distinct (map d_id ds)" and fresh: "d_id d \<notin> set (map d_id ds)"
    by simp_all
  obtain s2 where t2: "tracked (set (map d_id ds)) (phaseRequests w (map d_id ds)) pid (r_sys r1) s2"
    and st2: "\<forall>ph \<in> set (map d_id ds). ph \<in> set (map ph_id (phasesOf (r_sys r1) pid)) \<longrightarrow>
        phaseStatus s2 pid ph = Some (if threw w name ph then Failed else Completed)"
    and eq2: "runStmts (map (contentStmt w pid name) ds) r1 =
        Inr (r1\<lparr>r_sys := s2,
               r_allFiles := fold (\<lambda>ph acc. objectAssign acc (phaseFiles w name ph))
                               (map d_id ds) (r_allFiles r1),
               r_phaseResults := r_phaseResults r1 @ map (phaseResult w name) (map d_id ds)\<rparr>)"
    using Cons.IH [OF dist, where r = r1] by blast
  have sys1: "r_sys r1 = s1"
    by (simp add: r1_def eq1)
  have ids1: "map ph_id (phasesOf s1 pid) = map ph_id (phasesOf (r_sys r) pid)"
    if "ph \<in> set (map ph_id (phasesOf (r_sys r) pid))" for ph
    using t1 that by (rule tracked_ids)
  have "tracked ?ids (w_requests w (AwaitPhase (d_id d))) pid (r_sys r) s1"
    using t1 by (rule tracked_mono) simp
  moreover have "tracked ?ids (phaseRequests w (map d_id ds)) pid s1 s2"
    using t2 unfolding sys1 by (rule tracked_mono) auto
  ultimately have "tracked ?ids (w_requests w (AwaitPhase (d_id d)) @ phaseRequests w (map d_id ds))
      pid (r_sys r) s2"
    by (rule tracked_trans)
  then have t: "tracked ?ids (phaseRequests w (map d_id (d # ds))) pid (r_sys r) s2"
    by (simp add: phaseRequests_def)
  have st: "phaseStatus s2 pid ph = Some (if threw w name ph then Failed else Completed)"
    if "ph \<in> ?ids" "ph \<in> set (map ph_id (phasesOf (r_sys r) pid))" for ph
  proof (cases "ph = d_id d")
    case True
    from phase_in_session [OF that(2)] t1 have "activeGenerations s1 pid \<noteq> None"
      by (simp add: tracked_def)
    with True fresh t2 have "phaseStatus s2 pid ph = phaseStatus s1 pid ph"
      by (simp add: tracked_def sys1)
    with True that st1 show ?thesis
      by simp
  next
    case False
    with that have "ph \<in> set (map d_id ds)"
      by simp
    moreover from that have "ph \<in> set (map ph_id (phasesOf (r_sys r1) pid))"
      by (simp only: sys1 ids1 [OF that(2)])
    ultimately show ?thesis
      using st2 by blast
  qed
  have eq: "runStmts (map (contentStmt w pid name) (d # ds)) r =
      Inr (r\<lparr>r_sys := s2,
             r_allFiles := fold (\<lambda>ph acc. objectAssign acc (phaseFiles w name ph))
                             (map d_id (d # ds)) (r_allFiles r),
             r_phaseResults := r_phaseResults r @ map (phaseResult w name) (map d_id (d # ds))\<rparr>)"
    using eq2 by (simp add: contentStmt_def r1_def [symmetric]) (simp add: r1_def eq1)
  from t st eq show ?case
    by (intro exI [of _ s2]) blast
qed

lemma setupPhase_Inl:
  "w_structure w = Inl msg \<Longrightarrow>
   \<exists>s'. tracked {''setup''} (w_requests w AwaitStructure) pid (r_sys r) s' \<and>
        setupPhase w pid r = Inl (msg, r\<lparr>r_sys := s'\<rparr>)"
  by (intro exI [of _ "waiting w pid AwaitStructure
        (addLog (updatePhase (r_sys r) pid ''setup'' InProgress 0) pid
        ''Creating project folder structure...'' Info)"])
     (simp add: setupPhase_def Let_def tracked_intros)

lemma setupPhase_Inr:
  "w_structure w = Inr (path, slug) \<Longrightarrow>
   \<exists>s'. tracked {''setup''} (w_requests w AwaitStructure) pid (r_sys r) s' \<and>
        (''setup'' \<in> set (map ph_id (phasesOf (r_sys r) pid)) \<longrightarrow>
           phaseStatus s' pid ''setup'' = Some Completed) \<and>
        setupPhase w pid r = Inr (r\<lparr>r_sys := s', r_projectPath := path, r_projectSlug := slug\<rparr>)"
proof -
  assume w: "w_structure w = Inr (path, slug)"
  define s3 where "s3 = addLog (waiting w pid AwaitStructure
        (addLog (updatePhase (r_sys r) pid ''setup'' InProgress 0) pid
        ''Creating project folder structure...'' Info)) pid (''Project path: '' @ path) Info"
  have t3: "tracked {''setup''} (w_requests w AwaitStructure) pid (r_sys r) s3"
    unfolding s3_def by (intro tracked_intros) simp
  then have t4: "tracked {''setup''} (w_requests w AwaitStructure) pid (r_sys r)
      (updatePhase s3 pid ''setup'' Completed 0)"
    by (intro tracked_intros) simp_all
  have st: "phaseStatus (updatePhase s3 pid ''setup'' Completed 0) pid ''setup'' = Some Completed"
    if "''setup'' \<in> set (map ph_id (phasesOf (r_sys r) pid))"
    using that tracked_ids [OF t3 that] by (simp add: phaseStatus_updatePhase_same)
  have "setupPhase w pid r =
      Inr (r\<lparr>r_sys := updatePhase s3 pid ''setup'' Completed 0, r_projectPath := path,
             r_projectSlug := slug\<rparr>)"
    using w by (simp add: setupPhase_def Let_def s3_def)
  with t4 st show ?thesis
    by (intro exI [of _ "updatePhase s3 pid ''setup'' Completed 0"]) simp
qed

text \<open>The files accumulated by the content phases.\<close>

definition accumulated :: "world \<Rightarrow> string \<Rightarrow> files" where
  "accumulated w name =
     fold (\<lambda>ph acc. objectAssign acc (phaseFiles w name ph)) GENERATION_PHASES []"

lemma contentPhases_ids: "map d_id contentPhases = GENERATION_PHASES"
  by (simp add: contentPhases_def GENERATION_PHASES_def backendPhase_def frontendPhase_def
      databasePhase_def infrastructurePhase_def documentationPhase_def)

lemma GENERATION_PHASES_distinct: "distinct GENERATION_PHASES"
  by (simp add: GENERATION_PHASES_def)

lemma setup_not_content: "''setup'' \<notin> set GENERATION_PHASES"
  by (simp add: GENERATION_PHASES_def)

lemma generating_Inl:
  assumes "w_structure w = Inl msg"
  shows "\<exists>s'. tracked {''setup''} (w_requests w AwaitStructure) pid s s' \<and>
           runStmts (generating w pid name) (initialRun s) = Inl (msg, (initialRun s)\<lparr>r_sys := s'\<rparr>)"
proof -
  from setupPhase_Inl [OF assms, where pid = pid and r = "initialRun s"]
  obtain s' where "tracked {''setup''} (w_requests w AwaitStructure) pid (r_sys (initialRun s)) s'"
    and "setupPhase w pid (initialRun s) = Inl (msg, (initialRun s)\<lparr>r_sys := s'\<rparr>)"
    by blast
  then show ?thesis
    by (intro exI [of _ s']) (simp add: generating_def initialRun_def)
qed

lemma generating_Inr:
  assumes "w_structure w = Inr (path, slug)"
  shows "\<exists>s'. tracked (insert ''setup'' (set GENERATION_PHASES))
                (w_requests w AwaitStructure @ phaseRequests w GENERATION_PHASES) pid s s' \<and>
           (\<forall>ph \<in> set GENERATION_PHASES. ph \<in> set (map ph_id (phasesOf s pid)) \<longrightarrow>
              phaseStatus s' pid ph = Some (if threw w name ph then Failed else Completed)) \<and>
           runStmts (generating w pid name) (initialRun s) =
             Inr ((initialRun s)\<lparr>r_sys := s', r_projectPath := path, r_projectSlug := slug,
                    r_allFiles := accumulated w name,
                    r_phaseResults := map (phaseResult w name) GENERATION_PHASES\<rparr>)"
proof -
  from setupPhase_Inr [OF assms, where pid = pid and r = "initialRun s"]
  obtain s1 where t1: "tracked {''setup''} (w_requests w AwaitStructure) pid s s1"
    and eq1: "setupPhase w pid (initialRun s) =
        Inr ((initialRun s)\<lparr>r_sys := s1, r_projectPath := path, r_projectSlug := slug\<rparr>)"
    by (auto simp: initialRun_def)
  define r1 where "r1 = (initialRun s)\<lparr>r_sys := s1, r_projectPath := path, r_projectSlug := slug\<rparr>"
  have dist: "distinct (map d_id contentPhases)"
    by (simp add: contentPhases_ids GENERATION_PHASES_distinct)
  from contentPhases_run [OF dist, where pid = pid and r = r1 and w = w and name = name]
  obtain s2 where t2: "tracked (set GENERATION_PHASES) (phaseRequests w GENERATION_PHASES) pid s1 s2"
    and st2: "\<forall>ph \<in> set GENERATION_PHASES. ph \<in> set (map ph_id (phasesOf s1 pid)) \<longrightarrow>
        phaseStatus s2 pid ph = Some (if threw w name ph then Failed else Completed)"
    and eq2: "runStmts (map (contentStmt w pid name) contentPhases) r1 =
        Inr (r1\<lparr>r_sys := s2,
               r_allFiles := fold (\<lambda>ph acc. objectAssign acc (phaseFiles w name ph))
                               GENERATION_PHASES (r_allFiles r1),
               r_phaseResults := r_phaseResults r1 @ map (phaseResult w name) GENERATION_PHASES\<rparr>)"
    unfolding contentPhases_ids by (auto simp: r1_def)
  have "tracked (insert ''setup'' (set GENERATION_PHASES)) (w_requests w AwaitStructure) pid s s1"
    using t1 by (rule tracked_mono) simp
  moreover have "tracked (insert ''setup'' (set GENERATION_PHASES))
      (phaseRequests w GENERATION_PHASES) pid s1 s2"
    using t2 by (rule tracked_mono) auto
  ultimately have t: "tracked (insert ''setup'' (set GENERATION_PHASES))
      (w_requests w AwaitStructure @ phaseRequests w GENERATION_PHASES) pid s s2"
    by (rule tracked_trans)
  have st: "\<forall>ph \<in> set GENERATION_PHASES. ph \<in> set (map ph_id (phasesOf s pid)) \<longrightarrow>
      phaseStatus s2 pid ph = Some (if threw w name ph then Failed else Completed)"
  proof (intro ballI impI)
    fix ph
    assume ph: "ph \<in> set GENERATION_PHASES" "ph \<in> set (map ph_id (phasesOf s pid))"
    from tracked_ids [OF t1 ph(2)] ph(2) have "ph \<in> set (map ph_id (phasesOf s1 pid))"
      by simp
    with st2 ph(1)
    show "phaseStatus s2 pid ph = Some (if threw w name ph then Failed else Completed)"
      by blast
  qed
  have eq: "runStmts (generating w pid name) (initialRun s) =
      Inr ((initialRun s)\<lparr>r_sys := s2, r_projectPath := path, r_projectSlug := slug,
             r_allFiles := accumulated w name,
             r_phaseResults := map (phaseResult w name) GENERATION_PHASES\<rparr>)"
    using eq1 eq2 by (simp add: generating_def r1_def accumulated_def initialRun_def)
  from t st eq show ?thesis
    by (intro exI [of _ s2]) blast
qed

subsection \<open>The finalizing phase, step by step\<close>

text \<open>
  \<open>finalized pid s s'\<close>: what holds between the states before and after any part of the
  finalizing phase. No project is created or deleted, no file is removed, no timer is set,
  and a session stays, in which no phase but \<open>finalizing\<close> changes its status.
\<close>

definition finalized :: "string \<Rightarrow> sys \<Rightarrow> sys \<Rightarrow> bool" where
  "finalized pid s s' \<longleftrightarrow>
     dom (projects s') = dom (projects s) \<and> timers s' = timers s \<and>
     dom (disk s) \<subseteq> dom (disk s') \<and>
     (activeGenerations s pid \<noteq> None \<longrightarrow>
        activeGenerations s' pid \<noteq> None \<and>
        map ph_id (phasesOf s' pid) = map ph_id (phasesOf s pid) \<and>
        (\<forall>ph. ph \<noteq> ''finalizing'' \<longrightarrow> phaseStatus s' pid ph = phaseStatus s pid ph))"

lemma finalized_refl: "finalized pid s s"
  by (simp add: finalized_def)

lemma finalized_trans: "finalized pid s s' \<Longrightarrow> finalized pid s' s'' \<Longrightarrow> finalized pid s s''"
  unfolding finalized_def by (intro conjI; (elim conjE)?; (simp; fail | blast))

lemma tracked_finalized: "tracked {''finalizing''} reqs pid s s' \<Longrightarrow> finalized pid s s'"
  by (simp add: tracked_def finalized_def)

lemma finalized_waiting: "finalized pid s s' \<Longrightarrow> finalized pid s (waiting w pid a s')"
  by (erule finalized_trans) (rule tracked_finalized, rule waiting_tracked)

lemma finalized_addLog: "finalized pid s s' \<Longrightarrow> finalized pid s (addLog s' pid message ty)"
  by (erule finalized_trans) (rule tracked_finalized, rule addLog_tracked)

lemma finalized_updatePhase:
  "finalized pid s s' \<Longrightarrow> finalized pid s (updatePhase s' pid ''finalizing'' st n)"
  by (erule finalized_trans) (rule tracked_finalized, rule updatePhase_tracked, simp)

lemma finalized_disk: "finalized pid s s' \<Longrightarrow> finalized pid s (s'\<lparr>disk := (disk s')(k \<mapsto> v)\<rparr>)"
  by (erule finalized_trans)
     (auto simp: finalized_def clientsOf_def phaseStatus_def phasesOf_def)

lemma finalized_ports: "finalized pid s s' \<Longrightarrow> finalized pid s (s'\<lparr>portAssignments := x\<rparr>)"
  by (erule finalized_trans)
     (auto simp: finalized_def clientsOf_def phaseStatus_def phasesOf_def)

lemma finalized_updateProject:
  "finalized pid s s' \<Longrightarrow> finalized pid s (updateProject s' pid updates)"
  by (erule finalized_trans)
     (auto simp: finalized_def clientsOf_def phaseStatus_def phasesOf_def updateProject_def
        split: option.splits)

lemmas finalized_intros =
  finalized_refl finalized_addLog finalized_updatePhase finalized_disk finalized_ports
  finalized_updateProject

text \<open>The same for the local variables: the files and the phase results are read only.\<close>

definition kept :: "string \<Rightarrow> run \<Rightarrow> run \<Rightarrow> bool" where
  "kept pid r r' \<longleftrightarrow>
     r_allFiles r' = r_allFiles r \<and> r_phaseResults r' = r_phaseResults r \<and>
     r_projectPath r' = r_projectPath r \<and> r_projectSlug r' = r_projectSlug r \<and>
     finalized pid (r_sys r) (r_sys r')"

lemma kept_refl: "kept pid r r"
  by (simp add: kept_def finalized_refl)

lemma kept_trans: "kept pid r r' \<Longrightarrow> kept pid r' r'' \<Longrightarrow> kept pid r r''"
  by (auto simp: kept_def intro: finalized_trans)

text \<open>The state a statement ends in, thrown or not.\<close>

fun outcome :: "string \<times> run + run \<Rightarrow> run" where
  "outcome (Inl (msg, r)) = r"
| "outcome (Inr r) = r"

lemma runStmts_rel:
  assumes refl: "\<And>a. R a a"
    and trans: "\<And>a b c. R a b \<Longrightarrow> R b c \<Longrightarrow> R a c"
    and each: "\<And>st a. st \<in> set sts \<Longrightarrow> R a (outcome (st a))"
  shows "R r (outcome (runStmts sts r))"
  using each
proof (induction sts arbitrary: r)
  case Nil
  show ?case by (simp add: refl)
next
  case (Cons st sts)
  have 1: "R r (outcome (st r))"
    by (rule Cons.prems) simp
  show ?case
  proof (cases "st r")
    case (Inl e)
    with 1 show ?thesis by simp
  next
    case (Inr r')
    have "R r' (outcome (runStmts sts r'))"
      by (rule Cons.IH) (simp add: Cons.prems)
    with 1 Inr show ?thesis
      by (auto intro: trans)
  qed
qed

lemma attempt_kept: "(\<And>a. kept pid a (f a)) \<Longrightarrow> kept pid r (outcome (attempt w step f r))"
  by (simp add: attempt_def kept_refl split: option.splits)

lemma waiting_kept: "kept pid r (r\<lparr>r_sys := waiting w pid a (r_sys r)\<rparr>)"
  by (simp add: kept_def finalized_waiting finalized_refl)

lemma awaited_kept:
  "(\<And>a. kept pid a (f a)) \<Longrightarrow> kept pid r (outcome (awaited w pid step f r))"
  unfolding awaited_def by (rule kept_trans [OF waiting_kept]) (rule attempt_kept)

lemma writeDisk_kept: "kept pid r (writeDisk dir rel body r)"
  by (simp add: writeDisk_def kept_def finalized_intros)

lemma logRun_kept: "kept pid r (logRun pid message ty r)"
  by (simp add: logRun_def kept_def finalized_intros)

lemma saved_kept: "kept pid r (r\<lparr>r_savedFiles := x\<rparr>)"
  by (simp add: kept_def finalized_refl)

lemma beginFinalizing_kept: "kept pid r (outcome (beginFinalizing pid r))"
  by (simp add: beginFinalizing_def Let_def kept_def finalized_intros)

lemma saveMultipleFiles_kept: "kept pid r (outcome (saveMultipleFiles w pid r))"
proof -
  let ?sts = "map (\<lambda>e. awaited w pid (SaveFile (fst e))
      (writeDisk (r_projectPath r) (fst e) (Text (snd e)))) (r_allFiles r)"
  have "kept pid r (outcome (runStmts ?sts r))"
    by (rule runStmts_rel [where R = "kept pid"])
       (auto intro: kept_refl kept_trans awaited_kept writeDisk_kept)
  then show ?thesis
    by (cases "runStmts ?sts r") (auto simp: saveMultipleFiles_def kept_def)
qed

lemma ensureBackendPackageJson_kept: "kept pid r (outcome (ensureBackendPackageJson w pid name r))"
  unfolding ensureBackendPackageJson_def
  by (auto simp: kept_refl intro!: awaited_kept
      intro: kept_trans [OF kept_trans [OF writeDisk_kept saved_kept] logRun_kept])

lemma ensureFrontendPackageJson_kept: "kept pid r (outcome (ensureFrontendPackageJson w pid name r))"
  unfolding ensureFrontendPackageJson_def
  by (auto simp: kept_refl intro!: awaited_kept
      intro: kept_trans [OF kept_trans [OF writeDisk_kept saved_kept] logRun_kept])

lemma assignPortsStmt_kept: "kept pid r (outcome (assignPortsStmt w pid name r))"
proof -
  have 1: "kept pid a
      (case assignPorts (portAssignments (r_sys a)) pid name (w_now w) of
         (x, store) \<Rightarrow> a\<lparr>r_sys := (r_sys a)\<lparr>portAssignments := store\<rparr>, r_ports := Some x\<rparr>)" for a
    by (simp add: kept_def finalized_intros split: prod.splits)
  have "kept pid (logRun pid ''Assigning ports for deployment...'' Info r)
      (outcome (assignPortsStmt w pid name r))"
    unfolding assignPortsStmt_def by (rule attempt_kept) (rule 1)
  with logRun_kept show ?thesis
    by (rule kept_trans)
qed

lemma writeEnv_kept: "st \<in> set (writeEnv w pid name) \<Longrightarrow> kept pid r (outcome (st r))"
proof -
  have disk: "kept pid a (case r_ports a of None \<Rightarrow> a | Some x \<Rightarrow> writeDisk (r_projectPath a) rel (body x) a)"
    for a rel body
    by (simp add: kept_refl writeDisk_kept split: option.splits)
  have logged: "kept pid a (case r_ports a of None \<Rightarrow> a
      | Some x \<Rightarrow> logRun pid (msg x) Success (a\<lparr>r_savedFiles := r_savedFiles a @ fs\<rparr>))"
    for a msg fs
    by (auto simp: kept_refl split: option.splits intro: kept_trans [OF saved_kept logRun_kept])
  assume "st \<in> set (writeEnv w pid name)"
  then consider
    "st = awaited w pid WriteBackendEnv (\<lambda>r. case r_ports r of None \<Rightarrow> r
        | Some a \<Rightarrow> writeDisk (r_projectPath r) ''backend/.env'' (BackendEnv a name pid) r)"
    | "st = awaited w pid WriteFrontendEnv (\<lambda>r. case r_ports r of None \<Rightarrow> r
        | Some a \<Rightarrow> writeDisk (r_projectPath r) ''frontend/.env.local'' (FrontendEnv a) r)"
    | "st = (\<lambda>r. Inr (case r_ports r of None \<Rightarrow> r
        | Some a \<Rightarrow> logRun pid (''Ports assigned: Frontend '' @ showNat (frontend a) @
              '', Backend '' @ showNat (backend a)) Success
            (r\<lparr>r_savedFiles := r_savedFiles r @ [''backend/.env'', ''frontend/.env.local'']\<rparr>)))"
    unfolding writeEnv_def by auto
  then show ?thesis
  proof cases
    case 1
    show ?thesis unfolding 1 by (rule awaited_kept) (rule disk)
  next
    case 2
    show ?thesis unfolding 2 by (rule awaited_kept) (rule disk)
  next
    case 3
    show ?thesis unfolding 3 outcome.simps by (rule logged)
  qed
qed

lemma saveMetadataStmt_kept: "kept pid r (outcome (saveMetadataStmt w pid r))"
  unfolding saveMetadataStmt_def
  by (rule awaited_kept) (rule kept_trans [OF writeDisk_kept saved_kept])

lemma markTesting_kept: "kept pid r (outcome (markTesting pid r))"
  by (simp add: markTesting_def kept_def finalized_intros)

lemma smokeTest_kept: "kept pid r (outcome (smokeTest w pid r))"
proof (cases "find isServerFile (r_savedFiles r)")
  case None
  have "kept pid r (r\<lparr>r_testResult := t\<rparr>)" for t
    by (simp add: kept_def finalized_refl)
  then show ?thesis
    using None by (auto simp: smokeTest_def intro: kept_trans logRun_kept)
next
  case (Some f)
  have 1: "kept pid a (a\<lparr>r_testResult := t\<rparr>)" for a t
    by (simp add: kept_def finalized_refl)
  have 2: "kept pid a (if c then logRun pid m1 t1 (a\<lparr>r_testResult := x\<rparr>)
      else logRun pid m2 t2 (a\<lparr>r_testResult := x\<rparr>))" for a c m1 t1 m2 t2 x
    by (auto intro: kept_trans [OF 1 logRun_kept])
  have "kept pid (logRun pid ''Running tests on generated code...'' Thinking r)
      (outcome (smokeTest w pid r))"
    using Some unfolding smokeTest_def by (simp only: option.case) (rule awaited_kept, rule 2)
  with logRun_kept show ?thesis
    by (rule kept_trans)
qed

lemma finishFinalizing_kept: "kept pid r (outcome (finishFinalizing pid r))"
  by (simp add: finishFinalizing_def kept_def finalized_intros)

lemma afterSaving_kept: "st \<in> set (afterSaving w pid name) \<Longrightarrow> kept pid r (outcome (st r))"
  unfolding afterSaving_def
  using ensureBackendPackageJson_kept ensureFrontendPackageJson_kept assignPortsStmt_kept
    writeEnv_kept saveMetadataStmt_kept markTesting_kept smokeTest_kept finishFinalizing_kept
  by auto

lemma finalizing_each_kept: "st \<in> set (finalizing w pid name) \<Longrightarrow> kept pid r (outcome (st r))"
  unfolding finalizing_def
  using beginFinalizing_kept saveMultipleFiles_kept afterSaving_kept
  by auto

lemma finalizing_kept: "kept pid r (outcome (runStmts (finalizing w pid name) r))"
  by (rule runStmts_rel [where R = "kept pid"])
     (auto intro: kept_refl kept_trans finalizing_each_kept)

subsection \<open>The end of a run\<close>

lemma statusOf_updateProject:
  "projects s pid = Some p \<Longrightarrow> statusOf (updateProject s pid updates) pid = Some (p_status (updates p))"
  by (simp add: statusOf_def updateProject_def)

lemma errorOf_updateProject:
  "projects s pid = Some p \<Longrightarrow> errorOf (updateProject s pid updates) pid = p_error (updates p)"
  by (simp add: errorOf_def updateProject_def)

lemma addLog_fields [simp]:
  "projects (addLog s pid message ty) = projects s"
  "timers (addLog s pid message ty) = timers s"
  "disk (addLog s pid message ty) = disk s"
  "clientsOf (addLog s pid message ty) pid = clientsOf s pid"
  "phaseStatus (addLog s pid message ty) pid ph = phaseStatus s pid ph"
  by (simp_all add: addLog_def sendProgressUpdate_def setGeneration_def clientsOf_def
      phaseStatus_def phasesOf_def split: option.splits)

lemma sendProgressUpdate_fields [simp]:
  "projects (sendProgressUpdate s pid ev) = projects s"
  "timers (sendProgressUpdate s pid ev) = timers s"
  "disk (sendProgressUpdate s pid ev) = disk s"
  "activeGenerations (sendProgressUpdate s pid ev) = activeGenerations s"
  "written (sendProgressUpdate s pid ev) = written s @ map (\<lambda>c. (c, ev)) (clientsOf s pid)"
  by (simp_all add: sendProgressUpdate_def clientsOf_def split: option.splits)

lemma updateProject_fields [simp]:
  "timers (updateProject s pid updates) = timers s"
  "disk (updateProject s pid updates) = disk s"
  "activeGenerations (updateProject s pid updates) = activeGenerations s"
  "written (updateProject s pid updates) = written s"
  by (simp_all add: updateProject_def split: option.splits)

text \<open>The \<open>catch\<close> block, from a state in which the project exists.\<close>

lemma failRun_result:
  assumes "projects s pid = Some p"
  shows "statusOf (snd (failRun pid msg s)) pid = Some FAILED"
    and "errorOf (snd (failRun pid msg s)) pid = Some msg"
    and "rr_error (fst (failRun pid msg s)) = Some msg"
    and "\<not> rr_success (fst (failRun pid msg s))"
    and "\<forall>c \<in> set (clientsOf s pid). (c, EvError msg) \<in> set (written (snd (failRun pid msg s)))"
    and "activeGenerations (snd (failRun pid msg s)) pid = None"
    and "timers (snd (failRun pid msg s)) = timers s"
    and "disk (snd (failRun pid msg s)) = disk s"
proof -
  have p: "projects (addLog s pid (''Error: '' @ msg) Error) pid = Some p"
    using assms by simp
  show "statusOf (snd (failRun pid msg s)) pid = Some FAILED"
    using p by (simp add: failRun_def Let_def statusOf_def updateProject_def)
  show "errorOf (snd (failRun pid msg s)) pid = Some msg"
    using p by (simp add: failRun_def Let_def errorOf_def updateProject_def)
  show "rr_error (fst (failRun pid msg s)) = Some msg"
    by (simp add: failRun_def Let_def)
  show "\<not> rr_success (fst (failRun pid msg s))"
    by (simp add: failRun_def Let_def)
  have "clientsOf (updateProject (addLog s pid (''Error: '' @ msg) Error) pid updates) pid =
      clientsOf s pid" for updates
    using addLog_fields(4) [of s pid "''Error: '' @ msg" Error] by (simp add: clientsOf_def)
  then show "\<forall>c \<in> set (clientsOf s pid).
      (c, EvError msg) \<in> set (written (snd (failRun pid msg s)))"
    by (simp add: failRun_def Let_def)
  show "activeGenerations (snd (failRun pid msg s)) pid = None"
    by (simp add: failRun_def Let_def)
  show "timers (snd (failRun pid msg s)) = timers s"
    by (simp add: failRun_def Let_def)
  show "disk (snd (failRun pid msg s)) = disk s"
    by (simp add: failRun_def Let_def)
qed

text \<open>The end of the \<open>try\<close> block, from a state in which the project exists.\<close>

definition testResultsOf :: "sys \<Rightarrow> string \<Rightarrow> test_result option" where
  "testResultsOf s pid = (case projects s pid of None \<Rightarrow> None | Some p \<Rightarrow> p_testResults p)"

lemma finishRun_result:
  assumes "projects (r_sys r) pid = Some p"
  shows "statusOf (snd (finishRun w pid r)) pid =
           Some (finalStatus (r_phaseResults r) (r_testResult r))"
    and "rr_success (fst (finishRun w pid r)) \<longleftrightarrow>
           finalStatus (r_phaseResults r) (r_testResult r) = DEPLOYED"
    and "rr_filesGenerated (fst (finishRun w pid r)) = r_savedFiles r"
    and "rr_phaseResults (fst (finishRun w pid r)) = r_phaseResults r"
    and "disk (snd (finishRun w pid r)) = disk (r_sys r)"
    and "phaseStatus (snd (finishRun w pid r)) pid ph = phaseStatus (r_sys r) pid ph"
    and "errorOf (snd (finishRun w pid r)) pid =
           (if 0 < length (filter hasError (r_phaseResults r))
            then Some (showNat (length (filter hasError (r_phaseResults r))) @
                       '' phase(s) had errors'')
            else None)"
    and "testResultsOf (snd (finishRun w pid r)) pid = Some (r_testResult r)"
proof -
  show "statusOf (snd (finishRun w pid r)) pid =
      Some (finalStatus (r_phaseResults r) (r_testResult r))"
    using assms by (simp add: finishRun_def Let_def statusOf_def updateProject_def)
  show "errorOf (snd (finishRun w pid r)) pid =
      (if 0 < length (filter hasError (r_phaseResults r))
       then Some (showNat (length (filter hasError (r_phaseResults r))) @
                  '' phase(s) had errors'')
       else None)"
    using assms by (simp add: finishRun_def Let_def errorOf_def updateProject_def)
  show "testResultsOf (snd (finishRun w pid r)) pid = Some (r_testResult r)"
    using assms by (simp add: finishRun_def Let_def testResultsOf_def updateProject_def)
  show "rr_success (fst (finishRun w pid r)) \<longleftrightarrow>
      finalStatus (r_phaseResults r) (r_testResult r) = DEPLOYED"
    by (simp add: finishRun_def Let_def)
  show "rr_filesGenerated (fst (finishRun w pid r)) = r_savedFiles r"
    by (simp add: finishRun_def Let_def)
  show "rr_phaseResults (fst (finishRun w pid r)) = r_phaseResults r"
    by (simp add: finishRun_def Let_def)
  show "disk (snd (finishRun w pid r)) = disk (r_sys r)"
    by (simp add: finishRun_def Let_def)
  have "phaseStatus (s\<lparr>timers := t\<rparr>) pid ph = phaseStatus s pid ph" for s t
    by (simp add: phaseStatus_def phasesOf_def)
  moreover have "phaseStatus (sendProgressUpdate s pid ev) pid ph = phaseStatus s pid ph" for s ev
    by (simp add: phaseStatus_def phasesOf_def)
  moreover have "phaseStatus (updateProject s pid updates) pid ph = phaseStatus s pid ph"
    for s updates
    by (simp add: phaseStatus_def phasesOf_def)
  ultimately show "phaseStatus (snd (finishRun w pid r)) pid ph = phaseStatus (r_sys r) pid ph"
    by (simp add: finishRun_def Let_def)
qed

text \<open>
  A phase that threw is the only kind of entry with an error, and an entry without an
  error is enough for the status \<open>deployed\<close>.
\<close>

lemma hasError_threw: "hasError (phaseResult w name ph) \<Longrightarrow> threw w name ph"
  by (auto simp: phaseResult_def threw_def split: sum.splits)

lemma finalStatus_DEPLOYED:
  "x \<in> set results \<Longrightarrow> \<not> hasError x \<Longrightarrow> finalStatus results t = DEPLOYED"
proof -
  assume x: "x \<in> set results" "\<not> hasError x"
  then have "filter hasError results \<noteq> results"
    by (metis filter_id_conv)
  moreover have "length (filter hasError results) \<le> length results"
    by simp
  ultimately have "length (filter hasError results) \<noteq> length results"
    by (metis filter_True length_filter_less less_irrefl_nat filter_id_conv)
  then show ?thesis
    by (simp add: finalStatus_def Let_def)
qed

lemma objectAssign_empty: "\<forall>ph \<in> set phs. f ph = [] \<Longrightarrow> fold (\<lambda>ph acc. objectAssign acc (f ph)) phs acc = acc"
  by (induction phs arbitrary: acc) simp_all

lemma threw_no_files: "threw w name ph \<Longrightarrow> phaseFiles w name ph = []"
  by (auto simp: threw_def phaseFiles_def split: sum.splits)

lemma accumulated_nonempty:
  "accumulated w name \<noteq> [] \<Longrightarrow> \<exists>ph \<in> set GENERATION_PHASES. \<not> threw w name ph"
  unfolding accumulated_def
  using objectAssign_empty [of GENERATION_PHASES "phaseFiles w name" "[]"] threw_no_files
  by blast

subsection \<open>A run that produces no file\<close>






subsection \<open>The final status\<close>

lemma generating_done:
  assumes "runStmts (generating w pid name) (initialRun s) = Inr r0"
  shows "r_allFiles r0 = accumulated w name"
    and "r_phaseResults r0 = map (phaseResult w name) GENERATION_PHASES"
    and "projects (r_sys r0) = projects s"
    and "r_savedFiles r0 = []"
    and "\<exists>slug. w_structure w = Inr (r_projectPath r0, slug)"
    and "tracked (insert ''setup'' (set GENERATION_PHASES))
           (w_requests w AwaitStructure @ phaseRequests w GENERATION_PHASES) pid s (r_sys r0)"
    and "\<forall>ph \<in> set GENERATION_PHASES. ph \<in> set (map ph_id (phasesOf s pid)) \<longrightarrow>
           phaseStatus (r_sys r0) pid ph = Some (if threw w name ph then Failed else Completed)"
proof -
  obtain path slug where w: "w_structure w = Inr (path, slug)"
  proof (cases "w_structure w")
    case (Inl msg)
    from generating_Inl [OF Inl, where pid = pid and s = s and name = name] assms have False
      by auto
    then show ?thesis ..
  next
    case (Inr res)
    with that show ?thesis
      by (cases res) simp
  qed
  from generating_Inr [OF w, where pid = pid and s = s and name = name] assms
  obtain s' where t: "tracked (insert ''setup'' (set GENERATION_PHASES))
        (w_requests w AwaitStructure @ phaseRequests w GENERATION_PHASES) pid s s'"
    and st: "\<forall>ph \<in> set GENERATION_PHASES. ph \<in> set (map ph_id (phasesOf s pid)) \<longrightarrow>
        phaseStatus s' pid ph = Some (if threw w name ph then Failed else Completed)"
    and r0: "r0 = (initialRun s)\<lparr>r_sys := s', r_projectPath := path, r_projectSlug := slug,
        r_allFiles := accumulated w name,
        r_phaseResults := map (phaseResult w name) GENERATION_PHASES\<rparr>"
    by auto
  show "r_allFiles r0 = accumulated w name"
    by (simp add: r0)
  show "r_phaseResults r0 = map (phaseResult w name) GENERATION_PHASES"
    by (simp add: r0)
  show "projects (r_sys r0) = projects s"
    using t by (simp add: r0 tracked_def)
  show "r_savedFiles r0 = []"
    by (simp add: r0 initialRun_def)
  show "\<exists>slug. w_structure w = Inr (r_projectPath r0, slug)"
    using w by (simp add: r0)
  show "tracked (insert ''setup'' (set GENERATION_PHASES))
      (w_requests w AwaitStructure @ phaseRequests w GENERATION_PHASES) pid s (r_sys r0)"
    using t by (simp add: r0)
  show "\<forall>ph \<in> set GENERATION_PHASES. ph \<in> set (map ph_id (phasesOf s pid)) \<longrightarrow>
      phaseStatus (r_sys r0) pid ph = Some (if threw w name ph then Failed else Completed)"
    using st by (simp add: r0)
qed

lemma finalizing_done:
  assumes "runStmts (finalizing w pid name) r0 = Inr r"
  shows "kept pid r0 r"
  using finalizing_kept [of pid r0 w name] assms by simp

text \<open>The smoke test is the last statement that may throw; it leaves the saved files alone.\<close>

lemma finalizing_split:
  "finalizing w pid name =
     (beginFinalizing pid # saveMultipleFiles w pid #
      [ensureBackendPackageJson w pid name, ensureFrontendPackageJson w pid name,
       assignPortsStmt w pid name] @
      writeEnv w pid name @ [saveMetadataStmt w pid, markTesting pid]) @
     [smokeTest w pid, finishFinalizing pid]"
  by (simp add: finalizing_def afterSaving_def)

lemma smokeTest_result:
  assumes "smokeTest w pid a = Inr b"
  shows "r_savedFiles b = r_savedFiles a"
    and "r_testResult b =
           (case find isServerFile (r_savedFiles a) of
              None \<Rightarrow> \<lparr>t_success = True, t_error = None\<rparr>
            | Some serverFile \<Rightarrow> w_test w)"
  using assms
  by (auto simp: smokeTest_def awaited_def attempt_def logRun_def
      split: option.splits if_splits)

lemma finalizing_tested:
  assumes "runStmts (finalizing w pid name) r0 = Inr r"
  shows "r_testResult r =
           (case find isServerFile (r_savedFiles r) of
              None \<Rightarrow> \<lparr>t_success = True, t_error = None\<rparr>
            | Some serverFile \<Rightarrow> w_test w)"
proof -
  from assms obtain a b where t: "smokeTest w pid a = Inr b"
    and f: "finishFinalizing pid b = Inr r"
    unfolding finalizing_split runStmts_append
    by (auto split: sum.splits)
  from f have "r_testResult r = r_testResult b" "r_savedFiles r = r_savedFiles b"
    by (auto simp: finishFinalizing_def)
  with smokeTest_result [OF t] show ?thesis
    by simp
qed

text \<open>An entry has an error when its phase threw an error with a message.\<close>

lemma hasError_phaseResult:
  "hasError (phaseResult w name ph) \<longleftrightarrow>
     (\<exists>msg. generateSinglePhase w ph name = Inl msg \<and> msg \<noteq> [])"
  by (cases "generateSinglePhase w ph name") (auto simp: phaseResult_def)

lemma deployed_with_files:
  assumes "projects s pid = Some p"
    and "runStmts (generating w pid name) (initialRun s) = Inr r0"
    and "r_allFiles r0 \<noteq> []"
    and "runStmts (finalizing w pid name) r0 = Inr r"
  shows "runBatchGeneration w pid name s = finishRun w pid r"
    and "\<exists>p'. projects (r_sys r) pid = Some p'"
    and "finalStatus (r_phaseResults r) (r_testResult r) = DEPLOYED"
    and "r_phaseResults r = map (phaseResult w name) GENERATION_PHASES"
    and "length (filter hasError (r_phaseResults r)) < length (r_phaseResults r)"
proof -
  note gen = generating_done [OF assms(2)]
  note fin = finalizing_done [OF assms(4)]
  show "runBatchGeneration w pid name s = finishRun w pid r"
    using assms(2,4) by (simp add: runBatchGeneration_def tryBlock_def runStmts_append)
  from fin have "dom (projects (r_sys r)) = dom (projects (r_sys r0))"
    by (simp add: kept_def finalized_def)
  with assms(1) gen(3) show "\<exists>p'. projects (r_sys r) pid = Some p'"
    by (metis domD domI)
  from assms(3) gen(1) obtain ph where ph: "ph \<in> set GENERATION_PHASES" "\<not> threw w name ph"
    using accumulated_nonempty by metis
  from fin gen(2) show results: "r_phaseResults r = map (phaseResult w name) GENERATION_PHASES"
    by (simp add: kept_def)
  with ph have in_results: "phaseResult w name ph \<in> set (r_phaseResults r)"
    by simp
  moreover from ph have ok: "\<not> hasError (phaseResult w name ph)"
    using hasError_threw by blast
  ultimately show "finalStatus (r_phaseResults r) (r_testResult r) = DEPLOYED"
    by (rule finalStatus_DEPLOYED)
  from in_results ok show "length (filter hasError (r_phaseResults r)) < length (r_phaseResults r)"
    by (rule length_filter_less)
qed

text \<open>
  Claim C1. Take a run of an existing project that reaches the finalizing phase with at
  least one accumulated file and whose finalizing phase throws nothing. The phase results
  hold one entry for each content phase, and an entry counts as failed when its phase
  threw an error with a message. The test result is that of \<open>testCode\<close> when a server file
  was saved, and a success otherwise. The stored status is \<open>deployed\<close> when no entry failed
  and the test passed, \<open>failed\<close> when every entry failed, and \<open>deployed\<close> in every other
  case; the stored error is empty when no entry failed and gives the number of failed
  entries otherwise, and the test result is stored, so that full and partial success are
  told apart on the project record. With an accumulated file not every entry has failed,
  so the status is \<open>deployed\<close> in all these runs, and the run reports success. The status
  that the end of the \<open>try\<close> block stores is this three-way decision for any phase results
  and test result it is reached with.
\<close>

theorem final_status_determination:
  assumes "projects s pid = Some p"
    and "runStmts (generating w pid name) (initialRun s) = Inr r0"
    and "r_allFiles r0 \<noteq> []"
    and "runStmts (finalizing w pid name) r0 = Inr r"
  shows "(let results = map (phaseResult w name) GENERATION_PHASES;
              failed = filter hasError results;
              s' = snd (runBatchGeneration w pid name s)
          in rr_phaseResults (fst (runBatchGeneration w pid name s)) = results \<and>
             (\<forall>ph \<in> set GENERATION_PHASES.
                hasError (phaseResult w name ph) \<longleftrightarrow>
                  (\<exists>msg. generateSinglePhase w ph name = Inl msg \<and> msg \<noteq> [])) \<and>
             r_testResult r =
               (case find isServerFile (r_savedFiles r) of
                  None \<Rightarrow> \<lparr>t_success = True, t_error = None\<rparr>
                | Some serverFile \<Rightarrow> w_test w) \<and>
             statusOf s' pid =
               Some (if length failed = 0 \<and> t_success (r_testResult r) then DEPLOYED
                     else if length failed = length results then FAILED
                     else DEPLOYED) \<and>
             errorOf s' pid =
               (if 0 < length failed
                then Some (showNat (length failed) @ '' phase(s) had errors'')
                else None) \<and>
             testResultsOf s' pid = Some (r_testResult r) \<and>
             length failed < length results \<and>
             statusOf s' pid = Some DEPLOYED \<and>
             rr_success (fst (runBatchGeneration w pid name s))) \<and>
         (\<forall>r' p'. projects (r_sys r') pid = Some p' \<longrightarrow>
            statusOf (snd (finishRun w pid r')) pid =
              Some (if length (filter hasError (r_phaseResults r')) = 0 \<and>
                       t_success (r_testResult r') then DEPLOYED
                    else if length (filter hasError (r_phaseResults r')) =
                            length (r_phaseResults r') then FAILED
                    else DEPLOYED))"
proof -
  note d = deployed_with_files [OF assms]
  from d(2) obtain p' where p': "projects (r_sys r) pid = Some p'" ..
  note c = finishRun_result [OF p', of w]
  have 1: "rr_phaseResults (fst (runBatchGeneration w pid name s)) =
      map (phaseResult w name) GENERATION_PHASES"
    by (simp add: d(1) c(4) d(4))
  have 2: "\<forall>ph \<in> set GENERATION_PHASES.
      hasError (phaseResult w name ph) \<longleftrightarrow>
        (\<exists>msg. generateSinglePhase w ph name = Inl msg \<and> msg \<noteq> [])"
    by (simp add: hasError_phaseResult)
  note 3 = finalizing_tested [OF assms(4)]
  have 4: "statusOf (snd (runBatchGeneration w pid name s)) pid =
      Some (if length (filter hasError (map (phaseResult w name) GENERATION_PHASES)) = 0 \<and>
               t_success (r_testResult r) then DEPLOYED
            else if length (filter hasError (map (phaseResult w name) GENERATION_PHASES)) =
                    length (map (phaseResult w name) GENERATION_PHASES) then FAILED
            else DEPLOYED)"
    unfolding d(1) c(1) d(4) finalStatus_def Let_def ..
  have 5: "errorOf (snd (runBatchGeneration w pid name s)) pid =
      (if 0 < length (filter hasError (map (phaseResult w name) GENERATION_PHASES))
       then Some (showNat (length (filter hasError (map (phaseResult w name) GENERATION_PHASES))) @
                  '' phase(s) had errors'')
       else None)"
    unfolding d(1) c(7) d(4) ..
  have 6: "testResultsOf (snd (runBatchGeneration w pid name s)) pid = Some (r_testResult r)"
    unfolding d(1) by (rule c(8))
  have 7: "length (filter hasError (map (phaseResult w name) GENERATION_PHASES)) <
      length (map (phaseResult w name) GENERATION_PHASES)"
    using d(5) unfolding d(4) .
  have 8: "statusOf (snd (runBatchGeneration w pid name s)) pid = Some DEPLOYED"
    unfolding d(1) c(1) d(3) ..
  have 9: "rr_success (fst (runBatchGeneration w pid name s))"
    unfolding d(1) c(2) by (rule d(3))
  have 10: "statusOf (snd (finishRun w pid r')) pid =
      Some (if length (filter hasError (r_phaseResults r')) = 0 \<and>
               t_success (r_testResult r') then DEPLOYED
            else if length (filter hasError (r_phaseResults r')) =
                    length (r_phaseResults r') then FAILED
            else DEPLOYED)"
    if "projects (r_sys r') pid = Some p'" for r' p'
    unfolding finishRun_result(1) [OF that] finalStatus_def Let_def ..
  from 1 2 3 4 5 6 7 8 9 10 show ?thesis
    unfolding Let_def by (intro conjI allI impI)
qed

subsection \<open>The files of the phases among the accumulated files\<close>

lemma setProp_keys:
  "fst ` set (setProp obj k v) =
     (if k = ''__proto__'' then fst ` set obj else insert k (fst ` set obj))"
  by (simp add: setProp_def dom_update)

lemma objectAssign_keys:
  "''__proto__'' \<notin> fst ` set fs \<Longrightarrow>
   fst ` set (objectAssign acc fs) = fst ` set acc \<union> fst ` set fs"
  unfolding objectAssign_def
  by (induction fs arbitrary: acc) (auto simp: setProp_keys)

lemma parseFrom_no_proto:
  "''__proto__'' \<notin> fst ` set acc \<Longrightarrow> ''__proto__'' \<notin> fst ` set (parseFrom s acc)"
proof (induction s acc rule: parseFrom.induct)
  case (1 s files)
  show ?case
  proof (cases "s = []")
    case True
    with 1 show ?thesis by (simp add: parseFrom.simps)
  next
    case False
    show ?thesis
    proof (cases "matchFile s")
      case None
      with False 1 show ?thesis
        by (simp add: parseFrom.simps [of s])
    next
      case (Some m)
      obtain path content rest where m: "m = (path, content, rest)"
        by (cases m)
      from 1(3) have "''__proto__'' \<notin> fst ` set (setProp files (trim path) (trim content))"
        by (simp add: setProp_keys)
      then have "''__proto__'' \<notin>
          fst ` set (parseFrom rest (setProp files (trim path) (trim content)))"
        by (rule 1(2) [OF False Some [unfolded m] refl refl])
      with False Some m show ?thesis
        by (simp add: parseFrom.simps [of s])
    qed
  qed
qed

lemma parseMultiFileResponse_no_proto:
  "''__proto__'' \<notin> fst ` set (parseMultiFileResponse response)"
  unfolding parseMultiFileResponse_def by (rule parseFrom_no_proto) simp

lemma generatePhase_parsed:
  "generatePhase w ph n = Inr (fs, stats) \<Longrightarrow> \<exists>response. fs = parseMultiFileResponse response"
proof (induction w ph n rule: generatePhase.induct)
  case (1 w ph retryCount)
  show ?case
  proof (cases "w_reply w ph retryCount")
    case (Inl msg)
    with 1(2) show ?thesis
      by (simp add: generatePhase.simps [of w ph retryCount])
  next
    case (Inr rep)
    show ?thesis
    proof (cases rep)
      case OtherReply
      with Inr 1(2) show ?thesis
        by (simp add: generatePhase.simps [of w ph retryCount])
    next
      case (TextReply response i out)
      show ?thesis
      proof (cases "\<not> fst (validatePhaseFiles ph (parseMultiFileResponse response)) \<and> retryCount < 2")
        case True
        with Inr TextReply 1(2) have "generatePhase w ph (retryCount + 1) = Inr (fs, stats)"
          by (simp add: generatePhase.simps [of w ph retryCount] Let_def)
        with 1(1) [OF Inr TextReply refl True] show ?thesis
          by simp
      next
        case False
        with Inr TextReply 1(2) have "fs = parseMultiFileResponse response"
          by (auto simp: generatePhase.simps [of w ph retryCount] Let_def)
        then show ?thesis ..
      qed
    qed
  qed
qed

lemma validateAndFixFiles_subset:
  "fst ` set (fst (validateAndFixFiles parse stringify fs name)) \<subseteq> fst ` set fs"
proof -
  have "set (map fst (dropEnv xs)) \<subseteq> set (map fst xs)" for xs :: files
    by (auto simp: dropEnv_filter)
  from this [of "map fixBcryptEntry (fst (fixManifest ''frontend/package.json''
      (\<lambda>c. fixFrontendPackageJson parse stringify c name)
      (fixManifest ''backend/package.json''
        (\<lambda>c. fixBackendPackageJson parse stringify c name) (fs, []))))"]
  have "set (map fst (fst (validateAndFixFiles parse stringify fs name))) \<subseteq> set (map fst fs)"
    by (simp only: validateAndFixFiles_files map_fixBcryptEntry_keys manifests_keys)
  then show ?thesis
    by (simp only: set_map)
qed

lemma phaseFiles_no_proto: "''__proto__'' \<notin> fst ` set (phaseFiles w name ph)"
proof (cases "generateSinglePhase w ph name")
  case (Inl msg)
  then show ?thesis by (simp add: phaseFiles_def)
next
  case (Inr res)
  obtain fs stats where res: "res = (fs, stats)"
    by (cases res)
  from Inr res obtain fs0 where g: "generatePhase w ph 0 = Inr (fs0, stats)"
    and fs: "fs = fst (validateAndFixFiles (w_parse w) (w_stringify w) fs0 name)"
    by (auto simp: generateSinglePhase_def split: option.splits if_splits sum.splits)
  from generatePhase_parsed [OF g] have "''__proto__'' \<notin> fst ` set fs0"
    using parseMultiFileResponse_no_proto by auto
  with validateAndFixFiles_subset [of "w_parse w" "w_stringify w" fs0 name]
  have "''__proto__'' \<notin> fst ` set fs"
    unfolding fs by blast
  with Inr res show ?thesis
    by (simp add: phaseFiles_def)
qed

lemma fold_objectAssign_keys:
  "\<forall>ph. ''__proto__'' \<notin> fst ` set (f ph) \<Longrightarrow>
   fst ` set (fold (\<lambda>ph acc. objectAssign acc (f ph)) phs acc) =
     fst ` set acc \<union> (\<Union>ph \<in> set phs. fst ` set (f ph))"
  by (induction phs arbitrary: acc) (auto simp: objectAssign_keys)

lemma accumulated_keys:
  "fst ` set (accumulated w name) = (\<Union>ph \<in> set GENERATION_PHASES. fst ` set (phaseFiles w name ph))"
  unfolding accumulated_def
  using fold_objectAssign_keys [of "phaseFiles w name" GENERATION_PHASES "[]"]
  by (simp add: phaseFiles_no_proto)

subsection \<open>A finalizing phase that throws nothing\<close>

text \<open>After \<open>saveMultipleFiles\<close> every accumulated file is on disk and in the list.\<close>

lemma waiting_fields [simp]:
  "projects (waiting w pid a s) = projects s"
  "portAssignments (waiting w pid a s) = portAssignments s"
  "timers (waiting w pid a s) = timers s"
  "disk (waiting w pid a s) = disk s"
  using waiting_tracked [of "{}" w a pid s] by (simp_all add: tracked_def)

definition saved :: "run \<Rightarrow> run \<Rightarrow> bool" where
  "saved r r' \<longleftrightarrow>
     r_projectPath r' = r_projectPath r \<and> r_savedFiles r' = r_savedFiles r \<and>
     r_allFiles r' = r_allFiles r \<and>
     dom (disk (r_sys r)) \<subseteq> dom (disk (r_sys r'))"

lemma saveFiles_done:
  "runStmts (map (\<lambda>e. awaited w pid (SaveFile (fst e))
              (writeDisk dir (fst e) (Text (snd e)))) fs) r = Inr r' \<Longrightarrow>
   saved r r' \<and> (\<forall>f \<in> fst ` set fs. (dir, f) \<in> dom (disk (r_sys r')))"
proof (induction fs arbitrary: r)
  case Nil
  then show ?case by (simp add: saved_def)
next
  case (Cons e fs)
  let ?r1 = "writeDisk dir (fst e) (Text (snd e))
      (r\<lparr>r_sys := waiting w pid (AwaitStep (SaveFile (fst e))) (r_sys r)\<rparr>)"
  from Cons.prems obtain r1
    where a: "awaited w pid (SaveFile (fst e)) (writeDisk dir (fst e) (Text (snd e))) r = Inr r1"
      and run1: "runStmts (map (\<lambda>e. awaited w pid (SaveFile (fst e))
        (writeDisk dir (fst e) (Text (snd e)))) fs) r1 = Inr r'"
    by (simp split: sum.splits)
  from a have "r1 = ?r1"
    by (simp add: awaited_def attempt_def split: option.splits)
  with run1 have run: "runStmts (map (\<lambda>e. awaited w pid (SaveFile (fst e))
      (writeDisk dir (fst e) (Text (snd e)))) fs) ?r1 = Inr r'"
    by simp
  from Cons.IH [OF run] have s: "saved ?r1 r'"
    and d: "\<forall>f \<in> fst ` set fs. (dir, f) \<in> dom (disk (r_sys r'))"
    by blast+
  have 1: "dom (disk (r_sys r)) \<subseteq> dom (disk (r_sys ?r1))"
    "(dir, fst e) \<in> dom (disk (r_sys ?r1))"
    by (auto simp: writeDisk_def)
  from s have 2: "dom (disk (r_sys ?r1)) \<subseteq> dom (disk (r_sys r'))"
    by (simp add: saved_def)
  from 1 2 have 3: "dom (disk (r_sys r)) \<subseteq> dom (disk (r_sys r'))"
    "(dir, fst e) \<in> dom (disk (r_sys r'))"
    by blast+
  from s have "r_projectPath r' = r_projectPath r" "r_savedFiles r' = r_savedFiles r"
    "r_allFiles r' = r_allFiles r"
    by (simp_all add: saved_def writeDisk_def)
  with 3 d show ?case
    by (simp add: saved_def)
qed

lemma saveMultipleFiles_done:
  assumes "saveMultipleFiles w pid r = Inr r'"
  shows "r_savedFiles r' = map fst (r_allFiles r)"
    and "\<forall>f \<in> fst ` set (r_allFiles r). (r_projectPath r, f) \<in> dom (disk (r_sys r'))"
proof -
  from assms obtain r1 where r1: "runStmts (map (\<lambda>e. awaited w pid (SaveFile (fst e))
      (writeDisk (r_projectPath r) (fst e) (Text (snd e)))) (r_allFiles r)) r = Inr r1"
    and r': "r' = r1\<lparr>r_savedFiles := map fst (r_allFiles r)\<rparr>"
    by (auto simp: saveMultipleFiles_def split: sum.splits)
  show "r_savedFiles r' = map fst (r_allFiles r)"
    by (simp add: r')
  from saveFiles_done [OF r1]
  show "\<forall>f \<in> fst ` set (r_allFiles r). (r_projectPath r, f) \<in> dom (disk (r_sys r'))"
    by (simp add: r')
qed

text \<open>The statements after it only add to the list.\<close>

definition grown :: "run \<Rightarrow> run \<Rightarrow> bool" where
  "grown r r' \<longleftrightarrow> set (r_savedFiles r) \<subseteq> set (r_savedFiles r')"

lemma afterSaving_cases:
  assumes "st \<in> set (afterSaving w pid name)"
  obtains "st = ensureBackendPackageJson w pid name"
    | "st = ensureFrontendPackageJson w pid name" | "st = assignPortsStmt w pid name"
    | "st \<in> set (writeEnv w pid name)" | "st = saveMetadataStmt w pid"
    | "st = markTesting pid" | "st = smokeTest w pid" | "st = finishFinalizing pid"
  using assms unfolding afterSaving_def by auto

lemma afterSaving_grown:
  assumes "st \<in> set (afterSaving w pid name)"
  shows "grown a (outcome (st a))"
  using assms
proof (cases rule: afterSaving_cases)
  case 1
  show ?thesis
    unfolding 1 ensureBackendPackageJson_def
    by (auto simp: awaited_def attempt_def grown_def logRun_def writeDisk_def split: option.splits)
next
  case 2
  show ?thesis
    unfolding 2 ensureFrontendPackageJson_def
    by (auto simp: awaited_def attempt_def grown_def logRun_def writeDisk_def split: option.splits)
next
  case 3
  show ?thesis
    unfolding 3 assignPortsStmt_def
    by (auto simp: awaited_def attempt_def grown_def logRun_def split: prod.splits option.splits)
next
  case 4
  then show ?thesis
    unfolding writeEnv_def
    by (auto simp: awaited_def attempt_def grown_def logRun_def writeDisk_def split: option.splits)
next
  case 5
  show ?thesis
    unfolding 5 saveMetadataStmt_def
    by (auto simp: awaited_def attempt_def grown_def writeDisk_def split: option.splits)
next
  case 6
  show ?thesis
    unfolding 6 by (simp add: markTesting_def grown_def)
next
  case 7
  show ?thesis
    unfolding 7 smokeTest_def
    by (auto simp: awaited_def attempt_def grown_def logRun_def split: option.splits)
next
  case 8
  show ?thesis
    unfolding 8 by (simp add: finishFinalizing_def grown_def)
qed

lemma finalizing_saved:
  assumes "runStmts (finalizing w pid name) r = Inr r'"
  shows "r_allFiles r \<noteq> []"
    and "fst ` set (r_allFiles r) \<subseteq> set (r_savedFiles r')"
    and "\<forall>f \<in> fst ` set (r_allFiles r). (r_projectPath r, f) \<in> dom (disk (r_sys r'))"
proof -
  from assms obtain r1 r2 where r1: "beginFinalizing pid r = Inr r1"
    and r2: "saveMultipleFiles w pid r1 = Inr r2"
    and r3: "runStmts (afterSaving w pid name) r2 = Inr r'"
    by (auto simp: finalizing_def split: sum.splits)
  from r1 show "r_allFiles r \<noteq> []"
    by (auto simp: beginFinalizing_def Let_def split: if_splits)
  from beginFinalizing_kept [of pid r] r1
  have same: "r_allFiles r1 = r_allFiles r" "r_projectPath r1 = r_projectPath r"
    by (simp_all add: kept_def)
  note s = saveMultipleFiles_done [OF r2, unfolded same]
  have "grown r2 (outcome (runStmts (afterSaving w pid name) r2))"
  proof (rule runStmts_rel [where R = grown])
    show "grown a a" for a
      by (simp add: grown_def)
    show "grown a c" if "grown a b" "grown b c" for a b c
      using that by (auto simp: grown_def)
    show "grown a (outcome (st a))" if "st \<in> set (afterSaving w pid name)" for st a
      using that by (rule afterSaving_grown)
  qed
  with r3 s(1) show "fst ` set (r_allFiles r) \<subseteq> set (r_savedFiles r')"
    by (simp add: grown_def)
  have "kept pid r2 (outcome (runStmts (afterSaving w pid name) r2))"
    by (rule runStmts_rel [where R = "kept pid"])
       (auto intro: kept_refl kept_trans afterSaving_kept)
  with r3 have "dom (disk (r_sys r2)) \<subseteq> dom (disk (r_sys r'))"
    by (simp add: kept_def finalized_def)
  with s(2) show "\<forall>f \<in> fst ` set (r_allFiles r). (r_projectPath r, f) \<in> dom (disk (r_sys r'))"
    by blast
qed

subsection \<open>A world in which no step of the finalizing phase fails\<close>

lemma attempt_ok: "w_fault w step = None \<Longrightarrow> attempt w step f r = Inr (f r)"
  by (simp add: attempt_def)

lemma awaited_ok: "w_fault w step = None \<Longrightarrow> \<exists>b. awaited w pid step f r = Inr b"
  by (simp add: awaited_def attempt_def)

lemma runStmts_total:
  assumes "\<And>st a. st \<in> set sts \<Longrightarrow> \<exists>b. st a = Inr b"
  shows "\<exists>r'. runStmts sts r = Inr r'"
  using assms
proof (induction sts arbitrary: r)
  case Nil
  show ?case by simp
next
  case (Cons st sts)
  obtain b where b: "st r = Inr b"
    using Cons.prems [of st r] by auto
  obtain r' where "runStmts sts b = Inr r'"
    using Cons.IH [of b] Cons.prems by auto
  with b show ?case
    by auto
qed

lemma saveMultipleFiles_ok:
  assumes "\<forall>step. w_fault w step = None"
  shows "\<exists>r'. saveMultipleFiles w pid r = Inr r'"
proof -
  have "\<exists>r'. runStmts (map (\<lambda>e. awaited w pid (SaveFile (fst e))
      (writeDisk (r_projectPath r) (fst e) (Text (snd e)))) (r_allFiles r)) r = Inr r'"
    by (rule runStmts_total) (auto simp: awaited_ok assms)
  then show ?thesis
    by (auto simp: saveMultipleFiles_def)
qed

lemma afterSaving_ok:
  assumes "\<forall>step. w_fault w step = None" and "st \<in> set (afterSaving w pid name)"
  shows "\<exists>b. st a = Inr b"
  using assms(2)
proof (cases rule: afterSaving_cases)
  case 1
  show ?thesis
    unfolding 1 ensureBackendPackageJson_def by (simp add: attempt_ok awaited_ok assms(1))
next
  case 2
  show ?thesis
    unfolding 2 ensureFrontendPackageJson_def by (simp add: attempt_ok awaited_ok assms(1))
next
  case 3
  show ?thesis
    unfolding 3 assignPortsStmt_def by (simp add: attempt_ok awaited_ok assms(1))
next
  case 4
  then show ?thesis
    unfolding writeEnv_def by (auto simp: attempt_ok awaited_ok assms(1))
next
  case 5
  show ?thesis
    unfolding 5 saveMetadataStmt_def by (simp add: attempt_ok awaited_ok assms(1))
next
  case 6
  show ?thesis
    unfolding 6 by (simp add: markTesting_def)
next
  case 7
  show ?thesis
    unfolding 7 smokeTest_def by (simp add: attempt_ok awaited_ok assms(1) split: option.splits)
next
  case 8
  show ?thesis
    unfolding 8 by (simp add: finishFinalizing_def)
qed

lemma finalizing_ok:
  assumes "\<forall>step. w_fault w step = None" and "r_allFiles r \<noteq> []"
  shows "\<exists>r'. runStmts (finalizing w pid name) r = Inr r'"
proof -
  obtain r1 where r1: "beginFinalizing pid r = Inr r1"
    using assms(2) by (simp add: beginFinalizing_def Let_def)
  from saveMultipleFiles_ok [OF assms(1), where r = r1 and pid = pid]
  obtain r2 where r2: "saveMultipleFiles w pid r1 = Inr r2"
    by blast
  have "\<exists>r'. runStmts (afterSaving w pid name) r2 = Inr r'"
    by (rule runStmts_total) (rule afterSaving_ok [OF assms(1)])
  with r1 r2 show ?thesis
    by (simp add: finalizing_def)
qed

subsection \<open>A run in which one phase throws\<close>

lemma finalizing_not_content: "''finalizing'' \<notin> set GENERATION_PHASES"
  by (simp add: GENERATION_PHASES_def)

text \<open>The content phases that threw.\<close>

definition failedPhases :: "world \<Rightarrow> string \<Rightarrow> string list" where
  "failedPhases w name = filter (threw w name) GENERATION_PHASES"

text \<open>
  Claim C2, as amended. Take a run of an existing project that reaches the finalizing phase
  and whose finalizing phase throws nothing. Let exactly one content phase throw and let
  some content phase produce a file. Then the phase results hold one entry for each of the
  five content phases, in order; in the session the phase that threw has the status
  \<open>failed\<close> and every other content phase the status \<open>completed\<close>; the status of the project
  is \<open>deployed\<close> at the end and the run reports success; and every path produced by a
  content phase is in the list of saved files that the run returns and names a file on disk
  under the project path.
\<close>

theorem partial_failure_tolerated:
  assumes "projects s pid = Some p"
    and "runStmts (generating w pid name) (initialRun s) = Inr r0"
    and "runStmts (finalizing w pid name) r0 = Inr r"
    and "bad \<in> set GENERATION_PHASES"
    and "threw w name bad"
    and "\<forall>ph \<in> set GENERATION_PHASES. ph \<noteq> bad \<longrightarrow> \<not> threw w name ph"
    and "\<exists>ph \<in> set GENERATION_PHASES. phaseFiles w name ph \<noteq> []"
  shows "rr_phaseResults (fst (runBatchGeneration w pid name s)) =
           map (phaseResult w name) GENERATION_PHASES \<and>
         (\<forall>ph \<in> set GENERATION_PHASES. ph \<in> set (map ph_id (phasesOf s pid)) \<longrightarrow>
            phaseStatus (snd (runBatchGeneration w pid name s)) pid ph =
              Some (if ph = bad then Failed else Completed)) \<and>
         statusOf (snd (runBatchGeneration w pid name s)) pid = Some DEPLOYED \<and>
         rr_success (fst (runBatchGeneration w pid name s)) \<and>
         (\<forall>ph \<in> set GENERATION_PHASES. \<forall>f \<in> fst ` set (phaseFiles w name ph).
            f \<in> set (rr_filesGenerated (fst (runBatchGeneration w pid name s))) \<and>
            (r_projectPath r0, f) \<in> dom (disk (snd (runBatchGeneration w pid name s))))"
proof -
  note gen = assms(2) and fin = assms(3)
  note g = generating_done [OF gen]
  note sv = finalizing_saved [OF fin]
  have k: "kept pid r0 r"
    using fin by (rule finalizing_done)
  note d = deployed_with_files [OF assms(1) gen sv(1) fin]
  from d(2) obtain p' where p': "projects (r_sys r) pid = Some p'" ..
  note c = finishRun_result [OF p', of w]
  have 1: "rr_phaseResults (fst (runBatchGeneration w pid name s)) =
      map (phaseResult w name) GENERATION_PHASES"
    using k g(2) by (simp add: d(1) c(4) kept_def)
  have 2: "phaseStatus (snd (runBatchGeneration w pid name s)) pid ph =
      Some (if ph = bad then Failed else Completed)"
    if "ph \<in> set GENERATION_PHASES" "ph \<in> set (map ph_id (phasesOf s pid))" for ph
  proof -
    from that(1) have "ph \<noteq> ''finalizing''"
      using finalizing_not_content by auto
    moreover from phase_in_session [OF that(2)] g(6) have "activeGenerations (r_sys r0) pid \<noteq> None"
      by (simp add: tracked_def)
    ultimately have "phaseStatus (r_sys r) pid ph = phaseStatus (r_sys r0) pid ph"
      using k by (simp add: kept_def finalized_def)
    also from that g(7) have "\<dots> = Some (if threw w name ph then Failed else Completed)"
      by blast
    also from that(1) assms(5,6) have "threw w name ph \<longleftrightarrow> ph = bad"
      by blast
    finally show ?thesis
      by (simp add: d(1) c(6))
  qed
  have 3: "statusOf (snd (runBatchGeneration w pid name s)) pid = Some DEPLOYED"
    "rr_success (fst (runBatchGeneration w pid name s))"
    using c(1,2) d(3) by (simp_all add: d(1))
  have 4: "f \<in> set (rr_filesGenerated (fst (runBatchGeneration w pid name s))) \<and>
      (r_projectPath r0, f) \<in> dom (disk (snd (runBatchGeneration w pid name s)))"
    if "ph \<in> set GENERATION_PHASES" "f \<in> fst ` set (phaseFiles w name ph)" for ph f
  proof -
    from that have "f \<in> fst ` set (r_allFiles r0)"
      unfolding g(1) accumulated_keys by blast
    with sv(2,3) show ?thesis
      by (auto simp: d(1) c(3) c(5))
  qed
  from 1 2 3 4 show ?thesis
    by blast
qed

subsection \<open>A run in which a step outside the content phases throws\<close>

lemma thrown_failed:
  assumes "projects s pid = Some p"
    and "runStmts (tryBlock w pid name) (initialRun s) = Inl (msg, r)"
  shows "statusOf (snd (runBatchGeneration w pid name s)) pid = Some FAILED"
proof -
  have "\<exists>p'. projects (r_sys r) pid = Some p'"
  proof (cases "runStmts (generating w pid name) (initialRun s)")
    case (Inl e)
    with assms(2) have e: "e = (msg, r)"
      by (simp add: tryBlock_def runStmts_append)
    show ?thesis
    proof (cases "w_structure w")
      case (Inl m)
      from generating_Inl [OF Inl, where pid = pid and s = s and name = name] \<open>runStmts (generating w pid name) (initialRun s) = Inl e\<close> e
      have "tracked {''setup''} (w_requests w AwaitStructure) pid s (r_sys r)"
        by auto
      with assms(1) show ?thesis
        by (simp add: tracked_def)
    next
      case (Inr res)
      obtain path slug where "w_structure w = Inr (path, slug)"
        using Inr by (cases res) simp
      from generating_Inr [OF this, where pid = pid and s = s and name = name] \<open>runStmts (generating w pid name) (initialRun s) = Inl e\<close>
      show ?thesis
        by auto
    qed
  next
    case (Inr r0)
    with assms(2) have fin: "runStmts (finalizing w pid name) r0 = Inl (msg, r)"
      by (simp add: tryBlock_def runStmts_append)
    from finalizing_kept [of pid r0 w name] fin have "kept pid r0 r"
      by simp
    then have "dom (projects (r_sys r)) = dom (projects (r_sys r0))"
      by (simp add: kept_def finalized_def)
    with generating_done(3) [OF Inr] assms(1) show ?thesis
      by (metis domD domI)
  qed
  then obtain p' where "projects (r_sys r) pid = Some p'" ..
  from failRun_result(1) [OF this, of msg] assms(2) show ?thesis
    by (simp add: runBatchGeneration_def)
qed

lemma finalizing_fault:
  assumes "r_allFiles r = (f, c) # fs" and "w_fault w (SaveFile f) = Some msg"
  shows "\<exists>r'. runStmts (finalizing w pid name) r = Inl (msg, r')"
proof -
  obtain r1 where r1: "beginFinalizing pid r = Inr r1"
    using assms(1) by (simp add: beginFinalizing_def Let_def)
  with beginFinalizing_kept [of pid r] have "r_allFiles r1 = (f, c) # fs"
    by (simp add: kept_def assms(1))
  with assms(2) have "\<exists>r'. saveMultipleFiles w pid r1 = Inl (msg, r')"
    by (simp add: saveMultipleFiles_def awaited_def attempt_def)
  with r1 show ?thesis
    by (auto simp: finalizing_def)
qed

text \<open>The phases of the generator see the replies of the model only.\<close>

lemma generatePhase_fault:
  "generatePhase (w\<lparr>w_fault := x\<rparr>) ph n = generatePhase w ph n"
proof (induction w ph n rule: generatePhase.induct)
  case (1 w ph retryCount)
  show ?case
  proof (cases "w_reply w ph retryCount")
    case (Inl msg)
    then show ?thesis
      by (simp add: generatePhase.simps [of _ ph retryCount])
  next
    case (Inr rep)
    show ?thesis
    proof (cases rep)
      case OtherReply
      with Inr show ?thesis
        by (simp add: generatePhase.simps [of _ ph retryCount])
    next
      case (TextReply response i out)
      show ?thesis
      proof (cases "\<not> fst (validatePhaseFiles ph (parseMultiFileResponse response)) \<and> retryCount < 2")
        case True
        with 1 [OF Inr TextReply refl True] Inr TextReply show ?thesis
          by (simp add: generatePhase.simps [of _ ph retryCount] Let_def)
      next
        case False
        with Inr TextReply show ?thesis
          by (auto simp: generatePhase.simps [of _ ph retryCount] Let_def)
      qed
    qed
  qed
qed

lemma generateSinglePhase_fault:
  "generateSinglePhase (w\<lparr>w_fault := x\<rparr>) ph name = generateSinglePhase w ph name"
  by (simp add: generateSinglePhase_def generatePhase_fault split: option.splits sum.splits)

subsection \<open>Examples\<close>

text \<open>
  A project named Shop whose generation has been started. In the first world the backend
  phase throws, the model replies to the frontend phase with one page and to the other
  phases with nothing, and nothing else fails; client 8 opens the stream while the project
  structure is created and closes it during the frontend phase, and client 7 opens the
  stream during the backend phase. In the second world the disk is full when that page is
  saved. In the third world every call of the model throws. In the fourth world no phase
  throws, the backend phase produces a server file and the smoke test fails.
\<close>

definition page_reply :: string where
  "page_reply =
     ''===FILE: frontend/app/page.tsx==='' @ [CHR 0x0A] @ ''export default 1'' @ [CHR 0x0A] @
     ''===END FILE===''"

definition example_world :: world where
  "example_world =
     \<lparr>w_structure = Inr (''/generated-apps/p1-shop'', ''shop''), w_import = (\<lambda>ph. None),
      w_reply = (\<lambda>ph n. if ph = ''backend'' then Inl ''overloaded''
                          else if ph = ''frontend'' then Inr (TextReply page_reply 900 40)
                          else Inr (TextReply [] 900 0)),
      w_parse = example_parse, w_stringify = example_stringify,
      w_fault = (\<lambda>step. None), w_test = \<lparr>t_success = True, t_error = None\<rparr>,
      w_now = ''2024-05-01T10:00:00.000Z'', w_seconds = 95,
      w_requests = (\<lambda>a. if a = AwaitStructure then [Open 8]
                         else if a = AwaitPhase ''backend'' then [Open 7]
                         else if a = AwaitPhase ''frontend'' then [Close 8]
                         else [])\<rparr>"

definition disk_full_world :: world where
  "disk_full_world =
     example_world\<lparr>w_fault := (\<lambda>step. if step = SaveFile ''frontend/app/page.tsx''
                                         then Some ''ENOSPC: no space left on device''
                                         else None)\<rparr>"


definition server_reply :: string where
  "server_reply =
     ''===FILE: backend/src/server.js==='' @ [CHR 0x0A] @ ''module.exports = 1'' @ [CHR 0x0A] @
     ''===END FILE===''"

definition tested_world :: world where
  "tested_world =
     example_world
       \<lparr>w_reply := (\<lambda>ph n. if ph = ''backend'' then Inr (TextReply server_reply 900 40)
                               else Inr (TextReply [] 900 0)),
        w_test := \<lparr>t_success = False, t_error = Some ''SyntaxError: Unexpected token''\<rparr>\<rparr>"

definition example_start :: sys where
  "example_start = startGeneration (createProject empty_sys ''p1'' ''Shop'' ''a shop'') ''p1''"

lemma example_start_project:
  "projects example_start ''p1'' =
     Some \<lparr>p_id = ''p1'', p_name = ''Shop'', p_description = ''a shop'', p_status = GENERATING,
           p_slug = None, p_outputPath = None, p_generatedFiles = [], p_testResults = None,
           p_error = None, p_ports = None\<rparr>"
  by (simp add: example_start_def startGeneration_def createProject_def
      updateProject_def setGeneration_def empty_sys_def DRAFT_def GENERATING_def Let_def)

lemma example_start_session:
  "clientsOf example_start ''p1'' = []" "phasesOf example_start ''p1'' = BATCH_PHASES"
  "timers example_start = []" "disk example_start = Map.empty"
  by (simp_all add: example_start_def startGeneration_def createProject_def
      updateProject_def setGeneration_def empty_sys_def DRAFT_def GENERATING_def
      clientsOf_def phasesOf_def new_generation_def Let_def)

lemma example_threw: "failedPhases example_world ''Shop'' = [''backend'']"
  by code_simp

lemma example_files:
  "phaseFiles example_world ''Shop'' ''frontend'' = [(''frontend/app/page.tsx'', ''export default 1'')]"
  by code_simp

lemma example_accumulated:
  "accumulated example_world ''Shop'' = [(''frontend/app/page.tsx'', ''export default 1'')]"
  by code_simp


lemma threw_failedPhases:
  "ph \<in> set GENERATION_PHASES \<Longrightarrow> threw w name ph \<longleftrightarrow> ph \<in> set (failedPhases w name)"
  by (simp add: failedPhases_def)

lemma threw_fault: "threw (w\<lparr>w_fault := x\<rparr>) name = threw w name"
  by (rule ext) (simp add: threw_def generateSinglePhase_fault)

lemma phaseFiles_fault: "phaseFiles (w\<lparr>w_fault := x\<rparr>) name = phaseFiles w name"
  by (rule ext) (simp add: phaseFiles_def generateSinglePhase_fault)

lemma disk_full_phases:
  "failedPhases disk_full_world ''Shop'' = failedPhases example_world ''Shop''"
  "phaseFiles disk_full_world ''Shop'' ph = phaseFiles example_world ''Shop'' ph"
  "accumulated disk_full_world ''Shop'' = accumulated example_world ''Shop''"
  by (simp_all add: failedPhases_def accumulated_def disk_full_world_def threw_fault
      phaseFiles_fault)

text \<open>
  Claim C2 as stated fails: the backend phase is the only one that throws and the frontend
  phase produces a file, but saving that file throws, and the run ends in the status
  \<open>failed\<close>.
\<close>

theorem partial_failure_counterexample:
  "failedPhases disk_full_world ''Shop'' = [''backend''] \<and>
   phaseFiles disk_full_world ''Shop'' ''frontend'' =
     [(''frontend/app/page.tsx'', ''export default 1'')] \<and>
   statusOf (snd (runBatchGeneration disk_full_world ''p1'' ''Shop'' example_start)) ''p1'' =
     Some FAILED"
proof -
  have w: "w_structure disk_full_world = Inr (''/generated-apps/p1-shop'', ''shop'')"
    by (simp add: disk_full_world_def example_world_def)
  from generating_Inr [OF w, where pid = "''p1''" and s = example_start and name = "''Shop''"]
  obtain r0 where gen: "runStmts (generating disk_full_world ''p1'' ''Shop'')
      (initialRun example_start) = Inr r0"
    by blast
  from generating_done(1) [OF gen]
  have files: "r_allFiles r0 = [(''frontend/app/page.tsx'', ''export default 1'')]"
    by (simp add: disk_full_phases example_accumulated)
  have "w_fault disk_full_world (SaveFile ''frontend/app/page.tsx'') =
      Some ''ENOSPC: no space left on device''"
    by (simp add: disk_full_world_def)
  from finalizing_fault [OF files this, of "''p1''" "''Shop''"]
  obtain r where "runStmts (finalizing disk_full_world ''p1'' ''Shop'') r0 =
      Inl (''ENOSPC: no space left on device'', r)"
    by blast
  with gen have "runStmts (tryBlock disk_full_world ''p1'' ''Shop'') (initialRun example_start) =
      Inl (''ENOSPC: no space left on device'', r)"
    by (simp add: tryBlock_def runStmts_append)
  from thrown_failed [OF example_start_project this]
  show ?thesis
    by (simp add: disk_full_phases example_threw example_files)
qed

theorem partial_failure_tolerated_witness:
  "failedPhases example_world ''Shop'' = [''backend''] \<and>
   phaseFiles example_world ''Shop'' ''frontend'' =
     [(''frontend/app/page.tsx'', ''export default 1'')] \<and>
   phaseStatus (snd (runBatchGeneration example_world ''p1'' ''Shop'' example_start)) ''p1''
     ''backend'' = Some Failed \<and>
   phaseStatus (snd (runBatchGeneration example_world ''p1'' ''Shop'' example_start)) ''p1''
     ''documentation'' = Some Completed \<and>
   statusOf (snd (runBatchGeneration example_world ''p1'' ''Shop'' example_start)) ''p1'' =
     Some DEPLOYED \<and>
   ''frontend/app/page.tsx'' \<in>
     set (rr_filesGenerated (fst (runBatchGeneration example_world ''p1'' ''Shop'' example_start))) \<and>
   (''/generated-apps/p1-shop'', ''frontend/app/page.tsx'') \<in>
     dom (disk (snd (runBatchGeneration example_world ''p1'' ''Shop'' example_start)))"
proof -
  have w: "w_structure example_world = Inr (''/generated-apps/p1-shop'', ''shop'')"
    by (simp add: example_world_def)
  from generating_Inr [OF w, where pid = "''p1''" and s = example_start and name = "''Shop''"]
  obtain r0 where gen: "runStmts (generating example_world ''p1'' ''Shop'')
      (initialRun example_start) = Inr r0"
    by blast
  from generating_done(5) [OF gen] w have path: "r_projectPath r0 = ''/generated-apps/p1-shop''"
    by simp
  from generating_done(1) [OF gen] have nonempty: "r_allFiles r0 \<noteq> []"
    by (simp add: example_accumulated)
  have "\<forall>step. w_fault example_world step = None"
    by (simp add: example_world_def)
  from finalizing_ok [OF this nonempty, of "''p1''" "''Shop''"]
  obtain r where fin: "runStmts (finalizing example_world ''p1'' ''Shop'') r0 = Inr r"
    by blast
  have phases: "''backend'' \<in> set GENERATION_PHASES" "''frontend'' \<in> set GENERATION_PHASES"
    "''documentation'' \<in> set GENERATION_PHASES"
    by (simp_all add: GENERATION_PHASES_def)
  have bad: "threw example_world ''Shop'' ''backend''"
    by (simp add: threw_failedPhases phases example_threw)
  have others: "\<forall>ph \<in> set GENERATION_PHASES. ph \<noteq> ''backend'' \<longrightarrow> \<not> threw example_world ''Shop'' ph"
    by (simp add: threw_failedPhases example_threw)
  have some: "\<exists>ph \<in> set GENERATION_PHASES. phaseFiles example_world ''Shop'' ph \<noteq> []"
    using phases(2) example_files by force
  have ids: "''backend'' \<in> set (map ph_id (phasesOf example_start ''p1''))"
    "''documentation'' \<in> set (map ph_id (phasesOf example_start ''p1''))"
    by (simp_all add: example_start_session BATCH_PHASES_def mk_phase_def)
  note th = partial_failure_tolerated [OF example_start_project gen fin phases(1) bad others some]
  from th phases ids have
    "phaseStatus (snd (runBatchGeneration example_world ''p1'' ''Shop'' example_start)) ''p1''
       ''backend'' = Some Failed"
    "phaseStatus (snd (runBatchGeneration example_world ''p1'' ''Shop'' example_start)) ''p1''
       ''documentation'' = Some Completed"
    by force+
  moreover from th have
    "statusOf (snd (runBatchGeneration example_world ''p1'' ''Shop'' example_start)) ''p1'' =
       Some DEPLOYED"
    by blast
  moreover have "''frontend/app/page.tsx'' \<in> fst ` set (phaseFiles example_world ''Shop'' ''frontend'')"
    by (simp add: example_files)
  with th phases(2) have
    "''frontend/app/page.tsx'' \<in>
       set (rr_filesGenerated (fst (runBatchGeneration example_world ''p1'' ''Shop'' example_start))) \<and>
     (''/generated-apps/p1-shop'', ''frontend/app/page.tsx'') \<in>
       dom (disk (snd (runBatchGeneration example_world ''p1'' ''Shop'' example_start)))"
    unfolding path by blast
  ultimately show ?thesis
    by (simp add: example_threw example_files)
qed

lemma example_failed:
  "length (filter hasError (map (phaseResult example_world ''Shop'') GENERATION_PHASES)) = 1"
  "length (map (phaseResult example_world ''Shop'') GENERATION_PHASES) = 5"
  by code_simp+

lemma tested_failed:
  "length (filter hasError (map (phaseResult tested_world ''Shop'') GENERATION_PHASES)) = 0"
  by code_simp

lemma tested_accumulated:
  "accumulated tested_world ''Shop'' = [(''backend/src/server.js'', ''module.exports = 1'')]"
  by code_simp

lemma server_file: "isServerFile ''backend/src/server.js''"
  by code_simp

theorem final_status_determination_witness:
  "(statusOf (snd (runBatchGeneration example_world ''p1'' ''Shop'' example_start)) ''p1'' =
      Some DEPLOYED \<and>
    errorOf (snd (runBatchGeneration example_world ''p1'' ''Shop'' example_start)) ''p1'' =
      Some ''1 phase(s) had errors'' \<and>
    testResultsOf (snd (runBatchGeneration example_world ''p1'' ''Shop'' example_start)) ''p1'' =
      Some \<lparr>t_success = True, t_error = None\<rparr> \<and>
    rr_success (fst (runBatchGeneration example_world ''p1'' ''Shop'' example_start))) \<and>
   (statusOf (snd (runBatchGeneration tested_world ''p1'' ''Shop'' example_start)) ''p1'' =
      Some DEPLOYED \<and>
    errorOf (snd (runBatchGeneration tested_world ''p1'' ''Shop'' example_start)) ''p1'' = None \<and>
    testResultsOf (snd (runBatchGeneration tested_world ''p1'' ''Shop'' example_start)) ''p1'' =
      Some \<lparr>t_success = False, t_error = Some ''SyntaxError: Unexpected token''\<rparr> \<and>
    rr_success (fst (runBatchGeneration tested_world ''p1'' ''Shop'' example_start))) \<and>
   statusOf (snd (finishRun example_world ''p1''
       ((initialRun example_start)\<lparr>r_phaseResults := [PhaseError ''backend'' ''overloaded'']\<rparr>)))
     ''p1'' = Some FAILED"
proof -
  have w: "w_structure example_world = Inr (''/generated-apps/p1-shop'', ''shop'')"
    by (simp add: example_world_def)
  from generating_Inr [OF w, where pid = "''p1''" and s = example_start and name = "''Shop''"]
  obtain r0 where gen: "runStmts (generating example_world ''p1'' ''Shop'')
      (initialRun example_start) = Inr r0"
    by blast
  from generating_done(1) [OF gen] have nonempty: "r_allFiles r0 \<noteq> []"
    by (simp add: example_accumulated)
  have "\<forall>step. w_fault example_world step = None"
    by (simp add: example_world_def)
  from finalizing_ok [OF this nonempty, of "''p1''" "''Shop''"]
  obtain r where fin: "runStmts (finalizing example_world ''p1'' ''Shop'') r0 = Inr r"
    by blast
  note th = final_status_determination [OF example_start_project gen nonempty fin,
      unfolded Let_def example_failed]
  from th have "r_testResult r =
      (case find isServerFile (r_savedFiles r) of
         None \<Rightarrow> \<lparr>t_success = True, t_error = None\<rparr>
       | Some serverFile \<Rightarrow> w_test example_world)"
    by blast
  then have test: "r_testResult r = \<lparr>t_success = True, t_error = None\<rparr>"
    by (simp add: example_world_def split: option.splits)
  have one: "showNat (Suc 0) = ''1''"
    by code_simp
  from th have 1: "statusOf (snd (runBatchGeneration example_world ''p1'' ''Shop'' example_start)) ''p1'' =
        Some DEPLOYED \<and>
      errorOf (snd (runBatchGeneration example_world ''p1'' ''Shop'' example_start)) ''p1'' =
        Some ''1 phase(s) had errors'' \<and>
      testResultsOf (snd (runBatchGeneration example_world ''p1'' ''Shop'' example_start)) ''p1'' =
        Some \<lparr>t_success = True, t_error = None\<rparr> \<and>
      rr_success (fst (runBatchGeneration example_world ''p1'' ''Shop'' example_start))"
    by (simp add: test one)
  have w': "w_structure tested_world = Inr (''/generated-apps/p1-shop'', ''shop'')"
    by (simp add: tested_world_def example_world_def)
  from generating_Inr [OF w', where pid = "''p1''" and s = example_start and name = "''Shop''"]
  obtain t0 where gen': "runStmts (generating tested_world ''p1'' ''Shop'')
      (initialRun example_start) = Inr t0"
    by blast
  from generating_done(1) [OF gen']
  have files': "r_allFiles t0 = [(''backend/src/server.js'', ''module.exports = 1'')]"
    by (simp add: tested_accumulated)
  then have nonempty': "r_allFiles t0 \<noteq> []"
    by simp
  have "\<forall>step. w_fault tested_world step = None"
    by (simp add: tested_world_def example_world_def)
  from finalizing_ok [OF this nonempty', of "''p1''" "''Shop''"]
  obtain t where fin': "runStmts (finalizing tested_world ''p1'' ''Shop'') t0 = Inr t"
    by blast
  note th' = final_status_determination [OF example_start_project gen' nonempty' fin',
      unfolded Let_def tested_failed]
  from finalizing_saved(2) [OF fin'] files'
  have "''backend/src/server.js'' \<in> set (r_savedFiles t)"
    by simp
  with server_file have "find isServerFile (r_savedFiles t) \<noteq> None"
    by (auto simp: find_None_iff)
  moreover from th' have "r_testResult t =
      (case find isServerFile (r_savedFiles t) of
         None \<Rightarrow> \<lparr>t_success = True, t_error = None\<rparr>
       | Some serverFile \<Rightarrow> w_test tested_world)"
    by blast
  ultimately have test': "r_testResult t =
      \<lparr>t_success = False, t_error = Some ''SyntaxError: Unexpected token''\<rparr>"
    by (auto simp: tested_world_def)
  from th' have 2: "statusOf (snd (runBatchGeneration tested_world ''p1'' ''Shop'' example_start)) ''p1'' =
        Some DEPLOYED \<and>
      errorOf (snd (runBatchGeneration tested_world ''p1'' ''Shop'' example_start)) ''p1'' = None \<and>
      testResultsOf (snd (runBatchGeneration tested_world ''p1'' ''Shop'' example_start)) ''p1'' =
        Some \<lparr>t_success = False, t_error = Some ''SyntaxError: Unexpected token''\<rparr> \<and>
      rr_success (fst (runBatchGeneration tested_world ''p1'' ''Shop'' example_start))"
    by (simp add: test')
  have "projects (r_sys ((initialRun example_start)
      \<lparr>r_phaseResults := [PhaseError ''backend'' ''overloaded'']\<rparr>)) ''p1'' =
      Some \<lparr>p_id = ''p1'', p_name = ''Shop'', p_description = ''a shop'', p_status = GENERATING,
           p_slug = None, p_outputPath = None, p_generatedFiles = [], p_testResults = None,
           p_error = None, p_ports = None\<rparr>"
    by (simp add: initialRun_def example_start_project)
  with th have 3: "statusOf (snd (finishRun example_world ''p1''
       ((initialRun example_start)\<lparr>r_phaseResults := [PhaseError ''backend'' ''overloaded'']\<rparr>)))
     ''p1'' = Some FAILED"
    by fastforce
  from 1 2 3 show ?thesis
    by (intro conjI) (elim conjE, assumption)+
qed



end
